theory Spec2Isabelle
  imports Complex_Main "HOL-Library.Word"
begin

section \<open>Epsilon-greedy bandit: the data model\<close>

text \<open>
  The repository holds two variants of the same component, both declaring a struct
  \<open>EpsilonGreedy\<close> in package \<open>bandit\<close>: \<^verbatim>\<open>epsilon_greedy.go\<close> (validating, every
  method under the lock) and \<^verbatim>\<open>greedy.go\<close> (no validation, an extra field \<open>N\<close>).
  The definitions of the second carry the suffix \<open>_greedy\<close>.

  Numbers. A Go \<open>int\<close> (64-bit platform) and an \<open>int64\<close> stored in \<open>Counts\<close> is a
  \<open>64 word\<close>, read with \<open>sint\<close>; \<open>++\<close> wraps. Arm indices, arm numbers and
  lengths are only compared, never computed with, and are HOL integers. A \<open>float64\<close> is
  idealised as a real number: rounding, infinities and NaN are outside the model, so
  every statement about a mean is a statement of exact arithmetic.
\<close>

type_synonym float64 = real
type_synonym int64 = "64 word"

definition float64_of :: "int64 \<Rightarrow> float64" where
  "float64_of c = real_of_int (sint c)"

record EpsilonGreedy =
  Epsilon :: float64
  Counts :: "int64 list"
  Rewards :: "float64 list"

record EpsilonGreedy_greedy = EpsilonGreedy +
  N :: int

text \<open>
  The error values \<open>ErrInvalidArms\<close>, \<open>ErrArmsIndexOutOfRange\<close>, \<open>ErrInvalidReward\<close>,
  \<open>ErrInvalidEpsilon\<close> and \<open>ErrInvalidLength\<close> are used by \<^verbatim>\<open>epsilon_greedy.go\<close> and
  declared elsewhere; only their identity matters.
\<close>

datatype error =
  ErrInvalidArms | ErrArmsIndexOutOfRange | ErrInvalidReward | ErrInvalidEpsilon | ErrInvalidLength

text \<open>
  A call either returns a value, or panics (a run-time panic of Go: an index out of
  range, \<open>make\<close> with a negative length, \<open>rand.Intn\<close> with a non-positive argument), or
  reaches a case the spec leaves undefined. A method is a function from the state to
  its outcome and the state it leaves behind.
\<close>

datatype 'a outcome = Return 'a | Panic | Unspecified

definition len :: "'a list \<Rightarrow> int" where
  "len xs = int (length xs)"

definition make_slice :: "int \<Rightarrow> 'a \<Rightarrow> 'a list outcome" where
  "make_slice n z = (if n < 0 then Panic else Return (replicate (nat n) z))"

section \<open>Collaborators outside the two files\<close>

text \<open>
  A random result is given by its distribution: the function that maps every integer
  to the probability of its being returned. \<open>certainly m\<close> is the distribution of a
  result that is always \<open>m\<close>.
\<close>

type_synonym dist = "int \<Rightarrow> real"

definition certainly :: "int \<Rightarrow> dist" where
  "certainly m = (\<lambda>i. if i = m then 1 else 0)"

text \<open>
  \<open>rand.Intn n\<close> of Go's \<^verbatim>\<open>math/rand\<close>, from its documentation: a non-negative
  pseudo-random number in the half-open interval \<open>[0, n)\<close>, every value as likely as
  any other; it panics if \<open>n \<le> 0\<close>.
\<close>

definition rand_Intn :: "int \<Rightarrow> dist outcome" where
  "rand_Intn n =
     (if n \<le> 0 then Panic
      else Return (\<lambda>i. if 0 \<le> i \<and> i < n then 1 / real_of_int n else 0))"

text \<open>
  Modelled from the spec: \<open>maxMean\<close> (called at \<^verbatim>\<open>epsilon_greedy.go\<close> line 37) and
  \<open>max\<close> (called at \<^verbatim>\<open>greedy.go\<close> line 25) are not defined in the two source files.
  The spec: exploit returns the index of the arm with the highest current
  \<open>meanReward\<close>; when several arms share the maximum, the lowest index among them
  (the first-occurring maximum); the result is undefined only if \<open>N = 0\<close>. The scan
  keeps the best index and value seen so far and replaces them only by a strictly
  greater value.
\<close>

fun scan_max :: "float64 list \<Rightarrow> int \<Rightarrow> int \<Rightarrow> float64 \<Rightarrow> int" where
  "scan_max [] i best bestv = best"
| "scan_max (v # vs) i best bestv =
     (if v > bestv then scan_max vs (i + 1) i v else scan_max vs (i + 1) best bestv)"

text \<open>
  Modelled from the spec: \<open>max\<close> of \<^verbatim>\<open>greedy.go\<close> (not defined in the source files), the
  index of the first-occurring maximum of the means; undefined when there is none.
\<close>

definition max_greedy :: "float64 list \<Rightarrow> int outcome" where
  "max_greedy rewards =
     (case rewards of [] \<Rightarrow> Unspecified | v # vs \<Rightarrow> Return (scan_max vs 1 0 v))"

text \<open>
  Modelled from the spec: \<open>maxMean\<close> of \<^verbatim>\<open>epsilon_greedy.go\<close> (not defined in the source
  files). The spec gives the counts no part in the choice.
\<close>

definition maxMean :: "int64 list \<Rightarrow> float64 list \<Rightarrow> int outcome" where
  "maxMean counts rewards = max_greedy rewards"

section \<open>\<^verbatim>\<open>epsilon_greedy.go\<close>\<close>

definition Init :: "EpsilonGreedy \<Rightarrow> int \<Rightarrow> error option outcome \<times> EpsilonGreedy" where
  "Init b nArms =
     (if nArms < 1 then (Return (Some ErrInvalidArms), b)
      else (Return None,
            b\<lparr>Counts := replicate (nat nArms) 0, Rewards := replicate (nat nArms) 0\<rparr>))"

definition pick :: "int outcome \<Rightarrow> dist outcome" where
  "pick r = (case r of Return m \<Rightarrow> Return (certainly m) | Panic \<Rightarrow> Panic
             | Unspecified \<Rightarrow> Unspecified)"

definition SelectArm :: "EpsilonGreedy \<Rightarrow> float64 \<Rightarrow> dist outcome \<times> EpsilonGreedy" where
  "SelectArm b probability =
     (if probability > Epsilon b then (pick (maxMean (Counts b) (Rewards b)), b)
      else (rand_Intn (len (Rewards b)), b))"

definition Update :: "EpsilonGreedy \<Rightarrow> int \<Rightarrow> float64 \<Rightarrow> error option outcome \<times> EpsilonGreedy" where
  "Update b chosenArm reward =
     (if chosenArm < 0 \<or> chosenArm \<ge> len (Rewards b) then (Return (Some ErrArmsIndexOutOfRange), b)
      else if reward < 0 then (Return (Some ErrInvalidReward), b)
      else if chosenArm \<ge> len (Counts b) then (Panic, b)
      else
        let i = nat chosenArm;
            b1 = b\<lparr>Counts := (Counts b)[i := Counts b ! i + 1]\<rparr>;
            n = float64_of (Counts b1 ! i);
            oldRewards = Rewards b1 ! i
        in (Return None, b1\<lparr>Rewards := (Rewards b1)[i := (oldRewards * (n - 1) + reward) / n]\<rparr>))"

definition GetCounts :: "EpsilonGreedy \<Rightarrow> int64 list \<times> EpsilonGreedy" where
  "GetCounts b = (let sCopy = Counts b in (sCopy, b))"

definition GetRewards :: "EpsilonGreedy \<Rightarrow> float64 list \<times> EpsilonGreedy" where
  "GetRewards b = (let sCopy = Rewards b in (sCopy, b))"

definition NewEpsilonGreedy ::
  "float64 \<Rightarrow> int64 list \<Rightarrow> float64 list \<Rightarrow> error + EpsilonGreedy" where
  "NewEpsilonGreedy epsilon counts rewards =
     (if epsilon < 0 \<or> epsilon > 1 then Inl ErrInvalidEpsilon
      else if len counts \<noteq> len rewards then Inl ErrInvalidLength
      else Inr \<lparr>Epsilon = epsilon, Counts = counts, Rewards = rewards\<rparr>)"

section \<open>\<^verbatim>\<open>greedy.go\<close>\<close>

text \<open>
  \<open>SelectArm\<close> of this file draws \<open>rand.Float64()\<close> itself; the model takes the value
  drawn as the argument \<open>draw\<close>.
\<close>

definition SelectArm_greedy ::
  "EpsilonGreedy_greedy \<Rightarrow> float64 \<Rightarrow> dist outcome \<times> EpsilonGreedy_greedy" where
  "SelectArm_greedy b draw =
     (let rewards = Rewards b
      in if draw > Epsilon b then (pick (max_greedy rewards), b)
         else (rand_Intn (len rewards), b))"

definition Update_greedy ::
  "EpsilonGreedy_greedy \<Rightarrow> int \<Rightarrow> float64 \<Rightarrow> unit outcome \<times> EpsilonGreedy_greedy" where
  "Update_greedy b chosenArm reward =
     (if chosenArm < 0 \<or> chosenArm \<ge> len (Counts b) then (Panic, b)
      else
        let i = nat chosenArm;
            b1 = b\<lparr>Counts := (Counts b)[i := Counts b ! i + 1]\<rparr>;
            n = float64_of (Counts b1 ! i)
        in if chosenArm \<ge> len (Rewards b1) then (Panic, b1)
           else
             let v = Rewards b1 ! i;
                 newValue = (v * (n - 1) + reward) / n
             in (Return (), b1\<lparr>Rewards := (Rewards b1)[i := newValue]\<rparr>))"

definition SetRewards :: "EpsilonGreedy_greedy \<Rightarrow> float64 list \<Rightarrow> EpsilonGreedy_greedy" where
  "SetRewards b rewards = b\<lparr>Rewards := rewards\<rparr>"

definition SetCounts :: "EpsilonGreedy_greedy \<Rightarrow> int64 list \<Rightarrow> EpsilonGreedy_greedy" where
  "SetCounts b counts = b\<lparr>Counts := counts\<rparr>"

definition NewEpsilonGreedy_greedy :: "int \<Rightarrow> float64 \<Rightarrow> EpsilonGreedy_greedy outcome" where
  "NewEpsilonGreedy_greedy nArms epsilonDecay =
     (case make_slice nArms (0 :: float64) of
        Return rewards \<Rightarrow>
          (case make_slice nArms (0 :: int64) of
             Return counts \<Rightarrow>
               Return \<lparr>Epsilon = epsilonDecay, Counts = counts, Rewards = rewards, N = nArms\<rparr>
           | Panic \<Rightarrow> Panic | Unspecified \<Rightarrow> Unspecified)
      | Panic \<Rightarrow> Panic | Unspecified \<Rightarrow> Unspecified)"

section \<open>Feeding a sequence of rewards to one arm\<close>

text \<open>
  The caller's loop of the update-sequence property: the rewards are applied in order
  to the same arm, and the loop stops at the first call that does not succeed.
\<close>

fun feed :: "EpsilonGreedy \<Rightarrow> int \<Rightarrow> float64 list \<Rightarrow> error option outcome \<times> EpsilonGreedy" where
  "feed b i [] = (Return None, b)"
| "feed b i (r # rs) =
     (case Update b i r of
        (Return None, b') \<Rightarrow> feed b' i rs
      | res \<Rightarrow> res)"

fun feed_greedy ::
  "EpsilonGreedy_greedy \<Rightarrow> int \<Rightarrow> float64 list \<Rightarrow> unit outcome \<times> EpsilonGreedy_greedy" where
  "feed_greedy b i [] = (Return (), b)"
| "feed_greedy b i (r # rs) =
     (case Update_greedy b i r of
        (Return u, b') \<Rightarrow> feed_greedy b' i rs
      | res \<Rightarrow> res)"

section \<open>Notions of the specification\<close>

text \<open>
  Arm \<open>i\<close> exists in both sequences and has count 0 and mean 0.0. The definition is
  on the record scheme, so it reads the states of both files.
\<close>

definition fresh_arm :: "'a EpsilonGreedy_scheme \<Rightarrow> int \<Rightarrow> bool" where
  "fresh_arm b i \<longleftrightarrow>
     0 \<le> i \<and> i < len (Counts b) \<and> i < len (Rewards b) \<and>
     Counts b ! nat i = 0 \<and> Rewards b ! nat i = 0"

text \<open>
  The arithmetic average of the rewards; with no reward at all, the mean an arm starts
  with.
\<close>

definition average :: "float64 list \<Rightarrow> float64" where
  "average rs = (if rs = [] then 0 else sum_list rs / real (length rs))"

text \<open>
  \<open>first_max xs m\<close>: \<open>m\<close> is an index of \<open>xs\<close>, no entry is greater than the entry at
  \<open>m\<close>, and every entry before \<open>m\<close> is strictly smaller: the lowest index of a
  maximum.
\<close>

definition first_max :: "float64 list \<Rightarrow> int \<Rightarrow> bool" where
  "first_max xs m \<longleftrightarrow>
     0 \<le> m \<and> m < len xs \<and>
     (\<forall>j < length xs. xs ! j \<le> xs ! nat m) \<and>
     (\<forall>j < nat m. xs ! j < xs ! nat m)"

text \<open>The uniform distribution on \<open>[0, n)\<close>.\<close>

definition uniform :: "int \<Rightarrow> dist" where
  "uniform n = (\<lambda>i. if 0 \<le> i \<and> i < n then 1 / real_of_int n else 0)"

text \<open>The invariant of the data model: as many counts as means.\<close>

definition lengths_agree :: "'a EpsilonGreedy_scheme \<Rightarrow> bool" where
  "lengths_agree b \<longleftrightarrow> len (Counts b) = len (Rewards b)"

section \<open>Concurrent calls of \<open>Update\<close>\<close>

text \<open>
  Goroutines that call \<open>Update\<close> on one shared state run interleaved. A step of a
  goroutine is one access to the shared state or to the mutex; what a goroutine
  computes between two accesses is local to it. A \<open>point\<close> says where a call stands and
  holds the locals that are live there. \<open>b.Counts[chosenArm]++\<close> is a read followed
  by a write.
\<close>

datatype point =
    Called
  | Holding
  | Checked
  | Read_count int64
  | Wrote_count
  | Read_n float64
  | Read_mean float64 float64
  | Locked float64
  | Wrote_mean
  | Failing error
  | Panicking
  | Returned "error option"
  | Panicked

record call =
  arg_chosenArm :: int
  arg_reward :: float64
  pc :: point

text \<open>
  \<open>Update\<close> of \<^verbatim>\<open>epsilon_greedy.go\<close>, step by step. The shared state is the struct and
  whether its mutex is locked. \<open>b.Lock()\<close> can be taken only while the mutex is free;
  the deferred \<open>b.Unlock()\<close> runs on every way out, a panic included. \<open>None\<close>: the
  goroutine cannot move (it waits for the mutex, or its call is over).
\<close>

definition Update_step ::
  "call \<Rightarrow> EpsilonGreedy \<times> bool \<Rightarrow> (call \<times> (EpsilonGreedy \<times> bool)) option" where
  "Update_step c s =
     (let b = fst s; locked = snd s; i = nat (arg_chosenArm c)
      in case pc c of
           Called \<Rightarrow> if locked then None else Some (c\<lparr>pc := Holding\<rparr>, (b, True))
         | Holding \<Rightarrow>
             if arg_chosenArm c < 0 \<or> arg_chosenArm c \<ge> len (Rewards b)
             then Some (c\<lparr>pc := Failing ErrArmsIndexOutOfRange\<rparr>, s)
             else if arg_reward c < 0 then Some (c\<lparr>pc := Failing ErrInvalidReward\<rparr>, s)
             else Some (c\<lparr>pc := Checked\<rparr>, s)
         | Checked \<Rightarrow>
             if arg_chosenArm c \<ge> len (Counts b) then Some (c\<lparr>pc := Panicking\<rparr>, s)
             else Some (c\<lparr>pc := Read_count (Counts b ! i)\<rparr>, s)
         | Read_count t \<Rightarrow>
             Some (c\<lparr>pc := Wrote_count\<rparr>, (b\<lparr>Counts := (Counts b)[i := t + 1]\<rparr>, locked))
         | Wrote_count \<Rightarrow> Some (c\<lparr>pc := Read_n (float64_of (Counts b ! i))\<rparr>, s)
         | Read_n n \<Rightarrow> Some (c\<lparr>pc := Read_mean n (Rewards b ! i)\<rparr>, s)
         | Read_mean n oldRewards \<Rightarrow>
             Some (c\<lparr>pc := Wrote_mean\<rparr>,
                   (b\<lparr>Rewards := (Rewards b)[i := (oldRewards * (n - 1) + arg_reward c) / n]\<rparr>,
                    locked))
         | Wrote_mean \<Rightarrow> Some (c\<lparr>pc := Returned None\<rparr>, (b, False))
         | Failing e \<Rightarrow> Some (c\<lparr>pc := Returned (Some e)\<rparr>, (b, False))
         | Panicking \<Rightarrow> Some (c\<lparr>pc := Panicked\<rparr>, (b, False))
         | Locked v \<Rightarrow> None
         | Returned r \<Rightarrow> None
         | Panicked \<Rightarrow> None)"

text \<open>
  \<open>Update\<close> of \<^verbatim>\<open>greedy.go\<close>, step by step: the count is incremented and read, the
  mean is read and the new value is computed before \<open>b.Lock()\<close>; only the store of the
  new value is between \<open>b.Lock()\<close> and \<open>b.Unlock()\<close>. \<open>Locked newValue\<close>: the goroutine
  has the mutex.
\<close>

definition Update_step_greedy ::
  "call \<Rightarrow> EpsilonGreedy_greedy \<times> bool \<Rightarrow> (call \<times> (EpsilonGreedy_greedy \<times> bool)) option" where
  "Update_step_greedy c s =
     (let b = fst s; locked = snd s; i = nat (arg_chosenArm c)
      in case pc c of
           Called \<Rightarrow>
             if arg_chosenArm c < 0 \<or> arg_chosenArm c \<ge> len (Counts b) then Some (c\<lparr>pc := Panicked\<rparr>, s)
             else Some (c\<lparr>pc := Read_count (Counts b ! i)\<rparr>, s)
         | Read_count t \<Rightarrow>
             Some (c\<lparr>pc := Wrote_count\<rparr>, (b\<lparr>Counts := (Counts b)[i := t + 1]\<rparr>, locked))
         | Wrote_count \<Rightarrow> Some (c\<lparr>pc := Read_n (float64_of (Counts b ! i))\<rparr>, s)
         | Read_n n \<Rightarrow>
             if arg_chosenArm c \<ge> len (Rewards b) then Some (c\<lparr>pc := Panicked\<rparr>, s)
             else Some (c\<lparr>pc := Read_mean n (Rewards b ! i)\<rparr>, s)
         | Read_mean n v \<Rightarrow>
             if locked then None
             else Some (c\<lparr>pc := Locked ((v * (n - 1) + arg_reward c) / n)\<rparr>, (b, True))
         | Locked newValue \<Rightarrow>
             Some (c\<lparr>pc := Wrote_mean\<rparr>, (b\<lparr>Rewards := (Rewards b)[i := newValue]\<rparr>, locked))
         | Wrote_mean \<Rightarrow> Some (c\<lparr>pc := Returned None\<rparr>, (b, False))
         | Holding \<Rightarrow> None
         | Checked \<Rightarrow> None
         | Failing e \<Rightarrow> None
         | Panicking \<Rightarrow> None
         | Returned r \<Rightarrow> None
         | Panicked \<Rightarrow> None)"

text \<open>
  A schedule is the list of the goroutines chosen, in order. The goroutine chosen makes
  its step; a goroutine that cannot move, or a number that names none, leaves
  everything as it is.
\<close>

fun run ::
  "(call \<Rightarrow> 's \<Rightarrow> (call \<times> 's) option) \<Rightarrow> nat list \<Rightarrow> call list \<times> 's \<Rightarrow> call list \<times> 's" where
  "run stp [] cfg = cfg"
| "run stp (t # ts) cfg =
     (if t < length (fst cfg)
      then (case stp (fst cfg ! t) (snd cfg) of
              Some (c', s') \<Rightarrow> run stp ts ((fst cfg)[t := c'], s')
            | None \<Rightarrow> run stp ts cfg)
      else run stp ts cfg)"

text \<open>\<open>M\<close> goroutines, each about to call \<open>Update(i, r)\<close>.\<close>

definition calls :: "nat \<Rightarrow> int \<Rightarrow> float64 \<Rightarrow> call list" where
  "calls M i r = replicate M \<lparr>arg_chosenArm = i, arg_reward = r, pc = Called\<rparr>"

text \<open>Every call is over and has returned no error.\<close>

definition all_returned :: "call list \<Rightarrow> bool" where
  "all_returned cs = list_all (\<lambda>c. pc c = Returned None) cs"

text \<open>
  The invariant of the interleaved runs of \<^verbatim>\<open>epsilon_greedy.go\<close> in which every call is
  \<open>Update(i, 1.0)\<close>. A call is idle before \<open>b.Lock()\<close> and after it has returned; \<open>D\<close> is
  the number of calls that have returned. While the mutex is free every call is idle,
  the count of arm \<open>i\<close> is \<open>D\<close> and its mean is 0 or, once a call has returned, 1.
  While it is locked exactly one call is not idle, and \<open>holder_ok\<close> says what the shared
  state and the locals of that call are at each of its points.
\<close>

definition idle :: "point \<Rightarrow> bool" where
  "idle p \<longleftrightarrow> p = Called \<or> p = Returned None"

definition returned_count :: "call list \<Rightarrow> nat" where
  "returned_count cs = length (filter (\<lambda>c. pc c = Returned None) cs)"

definition mean_after :: "nat \<Rightarrow> float64" where
  "mean_after D = (if D = 0 then 0 else 1)"

definition holder_ok :: "point \<Rightarrow> nat \<Rightarrow> int64 \<Rightarrow> float64 \<Rightarrow> bool" where
  "holder_ok p D c m =
     (case p of
        Holding \<Rightarrow> sint c = int D \<and> m = mean_after D
      | Checked \<Rightarrow> sint c = int D \<and> m = mean_after D
      | Read_count t \<Rightarrow> t = c \<and> sint c = int D \<and> m = mean_after D
      | Wrote_count \<Rightarrow> sint c = int D + 1 \<and> m = mean_after D
      | Read_n n \<Rightarrow> sint c = int D + 1 \<and> n = real D + 1 \<and> m = mean_after D
      | Read_mean n v \<Rightarrow> sint c = int D + 1 \<and> n = real D + 1 \<and> v = mean_after D
      | Wrote_mean \<Rightarrow> sint c = int D + 1 \<and> m = 1
      | Called \<Rightarrow> False | Locked v \<Rightarrow> False | Failing e \<Rightarrow> False | Panicking \<Rightarrow> False
      | Returned r \<Rightarrow> False | Panicked \<Rightarrow> False)"

definition atomic_inv :: "int \<Rightarrow> call list \<times> (EpsilonGreedy \<times> bool) \<Rightarrow> bool" where
  "atomic_inv i cfg \<longleftrightarrow>
     (let cs = fst cfg; b = fst (snd cfg); locked = snd (snd cfg);
          D = returned_count cs; c = Counts b ! nat i; m = Rewards b ! nat i
      in 0 \<le> i \<and> i < len (Counts b) \<and> i < len (Rewards b) \<and> length cs < 2 ^ 63 \<and>
         (\<forall>j < length cs. arg_chosenArm (cs ! j) = i \<and> arg_reward (cs ! j) = 1) \<and>
         (if locked
          then \<exists>t < length cs.
                 holder_ok (pc (cs ! t)) D c m \<and>
                 (\<forall>j < length cs. j \<noteq> t \<longrightarrow> idle (pc (cs ! j)))
          else (\<forall>j < length cs. idle (pc (cs ! j))) \<and> sint c = int D \<and> m = mean_after D))"

text \<open>Where a call stands once a sequential call with the same arguments is over.\<close>

definition settle :: "'a outcome \<Rightarrow> ('a \<Rightarrow> error option) \<Rightarrow> point" where
  "settle r f = (case r of Return x \<Rightarrow> Returned (f x) | Panic \<Rightarrow> Panicked | Unspecified \<Rightarrow> Panicked)"

text \<open>The schedule that runs the calls one after the other, eight steps each.\<close>

fun one_by_one :: "nat \<Rightarrow> nat list" where
  "one_by_one 0 = []"
| "one_by_one (Suc k) = one_by_one k @ [k, k, k, k, k, k, k, k]"

section \<open>Auxiliary facts\<close>

subsection \<open>The counter\<close>

lemma sint_inc: "sint (c :: int64) < 2 ^ 63 - 1 \<Longrightarrow> sint (c + 1) = sint c + 1"
proof -
  assume a: "sint c < 2 ^ 63 - 1"
  have lo: "- (2 ^ 63) \<le> sint c" using sint_ge [of c] by simp
  have "sint (c + 1) = signed_take_bit 63 (sint c + 1)"
    by (simp add: sint_word_ariths)
  also have "\<dots> = sint c + 1"
    by (rule signed_take_bit_int_eq_self) (use a lo in simp_all)
  finally show ?thesis .
qed

lemma mean_step:
  assumes "sint (c :: int64) = int k" "k + 1 < 2 ^ 63" "m * real k = S"
  shows "sint (c + 1) = int (k + 1) \<and>
         (m * (float64_of (c + 1) - 1) + r) / float64_of (c + 1) * real (k + 1) = S + r"
proof -
  have "sint c < 2 ^ 63 - 1" using assms(1,2) by simp
  then have s: "sint (c + 1) = int k + 1" using sint_inc [of c] assms(1) by simp
  then have f: "float64_of (c + 1) = real k + 1" by (simp add: float64_of_def)
  have nz: "real k + 1 \<noteq> 0" by (simp add: add_nonneg_eq_0_iff)
  have "(m * (real k + 1 - 1) + r) / (real k + 1) * (real k + 1) = m * real k + r"
    using nz by simp
  then have "(m * (float64_of (c + 1) - 1) + r) / float64_of (c + 1) * real (k + 1) = S + r"
    using f assms(3) by (simp add: add.commute)
  then show ?thesis using s by simp
qed

subsection \<open>One successful update\<close>

lemma Update_ok:
  assumes "0 \<le> i" "i < len (Rewards b)" "i < len (Counts b)" "0 \<le> r"
  shows "Update b i r =
     (Return None,
      b\<lparr>Counts := (Counts b)[nat i := Counts b ! nat i + 1],
        Rewards := (Rewards b)[nat i :=
          (Rewards b ! nat i * (float64_of (Counts b ! nat i + 1) - 1) + r)
            / float64_of (Counts b ! nat i + 1)]\<rparr>)"
  using assms by (simp add: Update_def Let_def len_def)

lemma Update_greedy_ok:
  assumes "0 \<le> i" "i < len (Rewards b)" "i < len (Counts b)"
  shows "Update_greedy b i r =
     (Return (),
      b\<lparr>Counts := (Counts b)[nat i := Counts b ! nat i + 1],
        Rewards := (Rewards b)[nat i :=
          (Rewards b ! nat i * (float64_of (Counts b ! nat i + 1) - 1) + r)
            / float64_of (Counts b ! nat i + 1)]\<rparr>)"
  using assms by (simp add: Update_greedy_def Let_def len_def)

lemma Update_Return_None:
  assumes "Update b i r = (Return None, b')"
  shows "0 \<le> i \<and> i < len (Rewards b) \<and> i < len (Counts b) \<and> 0 \<le> r"
  using assms by (simp add: Update_def Let_def split: if_splits)

lemma Update_greedy_Return:
  assumes "Update_greedy b i r = (Return u, b')"
  shows "0 \<le> i \<and> i < len (Rewards b) \<and> i < len (Counts b)"
  using assms by (simp add: Update_greedy_def Let_def len_def split: if_splits)

subsection \<open>A sequence of updates\<close>

lemma feed_inv:
  assumes "0 \<le> i" "i < len (Rewards b)" "i < len (Counts b)" "\<forall>r \<in> set rs. 0 \<le> r"
    and "sint (Counts b ! nat i) = int k" "k + length rs < 2 ^ 63"
    and "Rewards b ! nat i * real k = S"
  shows "\<exists>b'. feed b i rs = (Return None, b') \<and>
           sint (Counts b' ! nat i) = int (k + length rs) \<and>
           Rewards b' ! nat i * real (k + length rs) = S + sum_list rs"
  using assms
proof (induction rs arbitrary: b k S)
  case Nil
  then show ?case by simp
next
  case (Cons r rs)
  let ?c = "Counts b ! nat i" and ?m = "Rewards b ! nat i"
  let ?b1 = "b\<lparr>Counts := (Counts b)[nat i := ?c + 1],
        Rewards := (Rewards b)[nat i :=
          (?m * (float64_of (?c + 1) - 1) + r) / float64_of (?c + 1)]\<rparr>"
  have r0: "0 \<le> r" using Cons.prems(4) by simp
  have u: "Update b i r = (Return None, ?b1)"
    using Update_ok [OF Cons.prems(1-3) r0] .
  have k1: "k + 1 < 2 ^ 63" using Cons.prems(6) by simp
  have st: "sint (?c + 1) = int (k + 1) \<and>
         (?m * (float64_of (?c + 1) - 1) + r) / float64_of (?c + 1) * real (k + 1) = S + r"
    by (rule mean_step [OF Cons.prems(5) k1 Cons.prems(7)])
  have ir: "nat i < length (Rewards b)" and ic: "nat i < length (Counts b)"
    using Cons.prems(1-3) by (simp_all add: len_def)
  have p2: "i < len (Rewards ?b1)" and p3: "i < len (Counts ?b1)"
    using Cons.prems(2,3) by (simp_all add: len_def)
  have p4: "\<forall>r \<in> set rs. 0 \<le> r" using Cons.prems(4) by simp
  have p5: "sint (Counts ?b1 ! nat i) = int (k + 1)" using st ic by simp
  have p6: "(k + 1) + length rs < 2 ^ 63" using Cons.prems(6) by simp
  have p7: "Rewards ?b1 ! nat i * real (k + 1) = S + r" using st ir by simp
  from Cons.IH [OF Cons.prems(1) p2 p3 p4 p5 p6 p7]
  obtain b' where b': "feed ?b1 i rs = (Return None, b')"
    "sint (Counts b' ! nat i) = int (k + 1 + length rs)"
    "Rewards b' ! nat i * real (k + 1 + length rs) = S + r + sum_list rs"
    by blast
  have "feed b i (r # rs) = (Return None, b')" using u b'(1) by simp
  then show ?case using b'(2-3) by (simp add: add.assoc add.commute)
qed

lemma feed_greedy_inv:
  assumes "0 \<le> i" "i < len (Rewards b)" "i < len (Counts b)"
    and "sint (Counts b ! nat i) = int k" "k + length rs < 2 ^ 63"
    and "Rewards b ! nat i * real k = S"
  shows "\<exists>b'. feed_greedy b i rs = (Return (), b') \<and>
           sint (Counts b' ! nat i) = int (k + length rs) \<and>
           Rewards b' ! nat i * real (k + length rs) = S + sum_list rs"
  using assms
proof (induction rs arbitrary: b k S)
  case Nil
  then show ?case by simp
next
  case (Cons r rs)
  let ?c = "Counts b ! nat i" and ?m = "Rewards b ! nat i"
  let ?b1 = "b\<lparr>Counts := (Counts b)[nat i := ?c + 1],
        Rewards := (Rewards b)[nat i :=
          (?m * (float64_of (?c + 1) - 1) + r) / float64_of (?c + 1)]\<rparr>"
  have u: "Update_greedy b i r = (Return (), ?b1)"
    using Update_greedy_ok [OF Cons.prems(1-3)] .
  have k1: "k + 1 < 2 ^ 63" using Cons.prems(5) by simp
  have st: "sint (?c + 1) = int (k + 1) \<and>
         (?m * (float64_of (?c + 1) - 1) + r) / float64_of (?c + 1) * real (k + 1) = S + r"
    by (rule mean_step [OF Cons.prems(4) k1 Cons.prems(6)])
  have ir: "nat i < length (Rewards b)" and ic: "nat i < length (Counts b)"
    using Cons.prems(1-3) by (simp_all add: len_def)
  have p2: "i < len (Rewards ?b1)" and p3: "i < len (Counts ?b1)"
    using Cons.prems(2,3) by (simp_all add: len_def)
  have p5: "sint (Counts ?b1 ! nat i) = int (k + 1)" using st ic by simp
  have p6: "(k + 1) + length rs < 2 ^ 63" using Cons.prems(5) by simp
  have p7: "Rewards ?b1 ! nat i * real (k + 1) = S + r" using st ir by simp
  from Cons.IH [OF Cons.prems(1) p2 p3 p5 p6 p7]
  obtain b' where b': "feed_greedy ?b1 i rs = (Return (), b')"
    "sint (Counts b' ! nat i) = int (k + 1 + length rs)"
    "Rewards b' ! nat i * real (k + 1 + length rs) = S + r + sum_list rs"
    by blast
  have "feed_greedy b i (r # rs) = (Return (), b')" using u b'(1) by simp
  then show ?case using b'(2-3) by (simp add: add.assoc add.commute)
qed

lemma mean_of_product:
  assumes "m * real (length rs) = sum_list rs" "rs = [] \<longrightarrow> m = 0"
  shows "m = average rs"
proof (cases "rs = []")
  case True
  then show ?thesis using assms(2) by (simp add: average_def)
next
  case False
  then have "real (length rs) \<noteq> 0" by simp
  then have "m = sum_list rs / real (length rs)"
    using assms(1) by (simp add: nonzero_eq_divide_eq)
  then show ?thesis using False by (simp add: average_def)
qed

lemma feed_fresh:
  assumes "fresh_arm b i" "\<forall>r \<in> set rs. 0 \<le> r" "length rs < 2 ^ 63"
  shows "\<exists>b'. feed b i rs = (Return None, b') \<and>
           sint (Counts b' ! nat i) = int (length rs) \<and> Rewards b' ! nat i = average rs"
proof -
  have h: "0 \<le> i" "i < len (Rewards b)" "i < len (Counts b)"
    "sint (Counts b ! nat i) = int 0" "Rewards b ! nat i * real (0 :: nat) = 0"
    using assms(1) by (simp_all add: fresh_arm_def)
  have k: "0 + length rs < 2 ^ 63" using assms(3) by simp
  from feed_inv [OF h(1-3) assms(2) h(4) k h(5)]
  obtain b' where b': "feed b i rs = (Return None, b')"
    "sint (Counts b' ! nat i) = int (length rs)"
    "Rewards b' ! nat i * real (length rs) = sum_list rs"
    by auto
  have e: "rs = [] \<longrightarrow> Rewards b' ! nat i = 0"
    using b'(1) assms(1) by (auto simp: fresh_arm_def)
  have "Rewards b' ! nat i = average rs" by (rule mean_of_product [OF b'(3) e])
  then show ?thesis using b'(1,2) by blast
qed

lemma feed_greedy_fresh:
  assumes "fresh_arm b i" "length rs < 2 ^ 63"
  shows "\<exists>b'. feed_greedy b i rs = (Return (), b') \<and>
           sint (Counts b' ! nat i) = int (length rs) \<and> Rewards b' ! nat i = average rs"
proof -
  have h: "0 \<le> i" "i < len (Rewards b)" "i < len (Counts b)"
    "sint (Counts b ! nat i) = int 0" "Rewards b ! nat i * real (0 :: nat) = 0"
    using assms(1) by (simp_all add: fresh_arm_def)
  have k: "0 + length rs < 2 ^ 63" using assms(2) by simp
  from feed_greedy_inv [OF h(1-3) h(4) k h(5)]
  obtain b' where b': "feed_greedy b i rs = (Return (), b')"
    "sint (Counts b' ! nat i) = int (length rs)"
    "Rewards b' ! nat i * real (length rs) = sum_list rs"
    by auto
  have e: "rs = [] \<longrightarrow> Rewards b' ! nat i = 0"
    using b'(1) assms(1) by (auto simp: fresh_arm_def)
  have "Rewards b' ! nat i = average rs" by (rule mean_of_product [OF b'(3) e])
  then show ?thesis using b'(1,2) by blast
qed

lemma Update_step_formula:
  assumes "Update b i r = (Return None, b')"
  shows "Counts b' ! nat i = Counts b ! nat i + 1 \<and>
         Rewards b' ! nat i =
           (Rewards b ! nat i * (float64_of (Counts b' ! nat i) - 1) + r)
             / float64_of (Counts b' ! nat i)"
proof -
  have h: "0 \<le> i" "i < len (Rewards b)" "i < len (Counts b)" "0 \<le> r"
    using Update_Return_None [OF assms] by simp_all
  have "b' = snd (Update b i r)" using assms by simp
  then show ?thesis
    using h by (simp add: Update_ok [OF h] len_def)
qed

lemma Update_greedy_step_formula:
  assumes "Update_greedy b i r = (Return u, b')"
  shows "Counts b' ! nat i = Counts b ! nat i + 1 \<and>
         Rewards b' ! nat i =
           (Rewards b ! nat i * (float64_of (Counts b' ! nat i) - 1) + r)
             / float64_of (Counts b' ! nat i)"
proof -
  have h: "0 \<le> i" "i < len (Rewards b)" "i < len (Counts b)"
    using Update_greedy_Return [OF assms] by simp_all
  have "b' = snd (Update_greedy b i r)" using assms by simp
  then show ?thesis
    using h by (simp add: Update_greedy_ok [OF h] len_def)
qed

subsection \<open>The scan for the maximum\<close>

lemma first_max_bound: "first_max xs m \<Longrightarrow> nat m < length xs"
  unfolding first_max_def len_def by linarith

lemma first_max_snoc_keep:
  assumes "first_max pre best" "v \<le> pre ! nat best"
  shows "first_max (pre @ [v]) best"
proof -
  have b: "nat best < length pre" using assms(1) by (rule first_max_bound)
  show ?thesis
    using assms b by (auto simp: first_max_def len_def nth_append less_Suc_eq)
qed

lemma first_max_snoc_new:
  assumes "first_max pre best" "pre ! nat best < v"
  shows "first_max (pre @ [v]) (len pre)"
proof -
  have le: "\<forall>j < length pre. pre ! j < v"
    using assms by (force simp: first_max_def)
  show ?thesis
    using le by (auto simp: first_max_def len_def nth_append less_Suc_eq)
qed

lemma scan_max_first_max:
  assumes "first_max pre best" "bestv = pre ! nat best" "i = len pre"
  shows "first_max (pre @ vs) (scan_max vs i best bestv)"
  using assms
proof (induction vs arbitrary: pre best bestv i)
  case Nil
  then show ?case by simp
next
  case (Cons v vs)
  have b: "nat best < length pre" using Cons.prems(1) by (rule first_max_bound)
  show ?case
  proof (cases "v > bestv")
    case True
    have fm: "first_max (pre @ [v]) i"
      using first_max_snoc_new [of pre best v] Cons.prems True by simp
    have "first_max ((pre @ [v]) @ vs) (scan_max vs (i + 1) i v)"
      by (rule Cons.IH [OF fm]) (use Cons.prems(3) in \<open>simp_all add: len_def\<close>)
    then show ?thesis using True by simp
  next
    case False
    have fm: "first_max (pre @ [v]) best"
      using first_max_snoc_keep [of pre best v] Cons.prems False by simp
    have "first_max ((pre @ [v]) @ vs) (scan_max vs (i + 1) best bestv)"
      by (rule Cons.IH [OF fm]) (use Cons.prems b in \<open>simp_all add: len_def nth_append\<close>)
    then show ?thesis using False by simp
  qed
qed

lemma max_greedy_first_max:
  assumes "rewards \<noteq> []"
  shows "\<exists>m. max_greedy rewards = Return m \<and> first_max rewards m"
proof -
  obtain v vs where r: "rewards = v # vs" using assms by (cases rewards) auto
  have "first_max [v] 0" by (simp add: first_max_def len_def)
  then have "first_max ([v] @ vs) (scan_max vs 1 0 v)"
    by (rule scan_max_first_max) (simp_all add: len_def)
  then show ?thesis using r by (simp add: max_greedy_def)
qed

lemma first_max_Max:
  assumes "first_max xs m"
  shows "xs ! nat m = Max (set xs)"
proof -
  have bm: "nat m < length xs" using assms by (rule first_max_bound)
  have "Max (set xs) = xs ! nat m"
  proof (rule Max_eqI)
    show "finite (set xs)" by simp
    show "xs ! nat m \<in> set xs" using bm by simp
    fix y assume "y \<in> set xs"
    then obtain j where "j < length xs" "y = xs ! j" by (auto simp: in_set_conv_nth)
    then show "y \<le> xs ! nat m" using assms by (simp add: first_max_def)
  qed
  then show ?thesis by simp
qed

lemma first_max_least:
  assumes "first_max xs m" "j < length xs" "xs ! j = Max (set xs)"
  shows "m \<le> int j"
proof (rule ccontr)
  assume "\<not> m \<le> int j"
  then have "j < nat m" by simp
  then have "xs ! j < xs ! nat m" using assms(1) by (simp add: first_max_def)
  then show False using assms(3) first_max_Max [OF assms(1)] by simp
qed

lemma first_max_unique:
  assumes "first_max xs m" "first_max xs m'"
  shows "m = m'"
proof (rule ccontr)
  assume ne: "m \<noteq> m'"
  have bm: "nat m < length xs" and bm': "nat m' < length xs"
    using assms by (simp_all add: first_max_bound)
  have nn: "0 \<le> m" "0 \<le> m'" using assms by (simp_all add: first_max_def)
  show False
  proof (cases "m < m'")
    case True
    then have "nat m < nat m'" using nn by simp
    then have "xs ! nat m < xs ! nat m'" using assms(2) by (simp add: first_max_def)
    moreover have "xs ! nat m' \<le> xs ! nat m" using assms(1) bm' by (simp add: first_max_def)
    ultimately show False by simp
  next
    case False
    then have "nat m' < nat m" using nn ne by simp
    then have "xs ! nat m' < xs ! nat m" using assms(1) by (simp add: first_max_def)
    moreover have "xs ! nat m \<le> xs ! nat m'" using assms(2) bm by (simp add: first_max_def)
    ultimately show False by simp
  qed
qed

subsection \<open>Distributions\<close>

lemma sum_certainly:
  assumes "0 \<le> m" "m < n"
  shows "(\<Sum>k = 0..<n. certainly m k) = 1"
proof -
  have "(\<Sum>k = 0..<n. certainly m k) = (\<Sum>k \<in> {0..<n}. if k = m then 1 else 0)"
    by (simp add: certainly_def)
  also have "\<dots> = (if m \<in> {0..<n} then 1 else 0)"
    by (simp only: sum.delta [OF finite_atLeastLessThan_int])
  finally show ?thesis using assms by simp
qed

lemma sum_uniform:
  assumes "0 < n"
  shows "(\<Sum>k = 0..<n. uniform n k) = 1"
proof -
  have "(\<Sum>k = 0..<n. uniform n k) = (\<Sum>k = 0..<n. 1 / real_of_int n)"
    by (rule sum.cong) (simp_all add: uniform_def)
  also have "\<dots> = 1" using assms by simp
  finally show ?thesis .
qed

lemma rand_Intn_uniform: "0 < n \<Longrightarrow> rand_Intn n = Return (uniform n)"
  by (simp add: rand_Intn_def uniform_def)

subsection \<open>Selection\<close>

lemma SelectArm_exploit:
  assumes "probability > Epsilon b" "Rewards b \<noteq> []"
  shows "\<exists>m. SelectArm b probability = (Return (certainly m), b) \<and> first_max (Rewards b) m"
proof -
  obtain m where m: "max_greedy (Rewards b) = Return m" "first_max (Rewards b) m"
    using max_greedy_first_max [OF assms(2)] by blast
  have "SelectArm b probability = (Return (certainly m), b)"
    using m(1) assms(1) by (simp add: SelectArm_def maxMean_def pick_def)
  then show ?thesis using m(2) by blast
qed

lemma SelectArm_greedy_exploit:
  assumes "draw > Epsilon b" "Rewards b \<noteq> []"
  shows "\<exists>m. SelectArm_greedy b draw = (Return (certainly m), b) \<and> first_max (Rewards b) m"
proof -
  obtain m where m: "max_greedy (Rewards b) = Return m" "first_max (Rewards b) m"
    using max_greedy_first_max [OF assms(2)] by blast
  have "SelectArm_greedy b draw = (Return (certainly m), b)"
    using m(1) assms(1) by (simp add: SelectArm_greedy_def pick_def)
  then show ?thesis using m(2) by blast
qed

lemma SelectArm_explore:
  assumes "probability \<le> Epsilon b" "Rewards b \<noteq> []"
  shows "SelectArm b probability = (Return (uniform (len (Rewards b))), b)"
  using assms by (simp add: SelectArm_def rand_Intn_uniform len_def)

lemma SelectArm_greedy_explore:
  assumes "draw \<le> Epsilon b" "Rewards b \<noteq> []"
  shows "SelectArm_greedy b draw = (Return (uniform (len (Rewards b))), b)"
  using assms by (simp add: SelectArm_greedy_def rand_Intn_uniform len_def)

section \<open>Interleaved runs\<close>

subsection \<open>Counting the calls that have returned\<close>

lemma filter_length_update:
  "t < length xs \<Longrightarrow>
   length (filter P (xs[t := y])) + (if P (xs ! t) then 1 else 0)
     = length (filter P xs) + (if P y then 1 else 0)"
proof (induction xs arbitrary: t)
  case Nil
  then show ?case by simp
next
  case (Cons x xs)
  then show ?case by (cases t) auto
qed

lemma returned_count_update_same:
  assumes "t < length cs" "pc (cs ! t) \<noteq> Returned None" "pc c' \<noteq> Returned None"
  shows "returned_count (cs[t := c']) = returned_count cs"
  using filter_length_update [OF assms(1), of "\<lambda>c. pc c = Returned None" c'] assms(2,3)
  by (simp add: returned_count_def)

lemma returned_count_update_done:
  assumes "t < length cs" "pc (cs ! t) \<noteq> Returned None" "pc c' = Returned None"
  shows "returned_count (cs[t := c']) = returned_count cs + 1"
  using filter_length_update [OF assms(1), of "\<lambda>c. pc c = Returned None" c'] assms(2,3)
  by (simp add: returned_count_def)

lemma returned_count_less:
  assumes "t < length cs" "pc (cs ! t) \<noteq> Returned None"
  shows "returned_count cs < length cs"
proof -
  have "cs ! t \<in> set cs" using assms(1) by simp
  then show ?thesis
    unfolding returned_count_def using assms(2) by (rule length_filter_less)
qed


subsection \<open>The invariant of \<^verbatim>\<open>epsilon_greedy.go\<close>\<close>

lemma atomic_inv_lockedI:
  assumes "0 \<le> i" "i < len (Counts b)" "i < len (Rewards b)" "length cs < 2 ^ 63"
    and "\<forall>j < length cs. arg_chosenArm (cs ! j) = i \<and> arg_reward (cs ! j) = 1"
    and "t < length cs"
    and "holder_ok (pc (cs ! t)) (returned_count cs) (Counts b ! nat i) (Rewards b ! nat i)"
    and "\<forall>j < length cs. j \<noteq> t \<longrightarrow> idle (pc (cs ! j))"
  shows "atomic_inv i (cs, (b, True))"
  using assms unfolding atomic_inv_def Let_def by auto

lemma atomic_inv_freeI:
  assumes "0 \<le> i" "i < len (Counts b)" "i < len (Rewards b)" "length cs < 2 ^ 63"
    and "\<forall>j < length cs. arg_chosenArm (cs ! j) = i \<and> arg_reward (cs ! j) = 1"
    and "\<forall>j < length cs. idle (pc (cs ! j))"
    and "sint (Counts b ! nat i) = int (returned_count cs)"
    and "Rewards b ! nat i = mean_after (returned_count cs)"
  shows "atomic_inv i (cs, (b, False))"
  using assms unfolding atomic_inv_def Let_def by auto

lemma Update_step_inv:
  assumes inv: "atomic_inv i (cs, (b, locked))" and t: "t < length cs"
    and st: "Update_step (cs ! t) (b, locked) = Some (c', (b', locked'))"
  shows "atomic_inv i (cs[t := c'], (b', locked'))"
proof -
  let ?D = "returned_count cs"
  let ?c = "Counts b ! nat i" and ?m = "Rewards b ! nat i"
  have i0: "0 \<le> i" and ic: "i < len (Counts b)" and ir: "i < len (Rewards b)"
    and len: "length cs < 2 ^ 63"
    and args: "\<forall>j < length cs. arg_chosenArm (cs ! j) = i \<and> arg_reward (cs ! j) = 1"
    using inv unfolding atomic_inv_def Let_def by simp_all
  have nic: "nat i < length (Counts b)" and nir: "nat i < length (Rewards b)"
    using i0 ic ir by (simp_all add: len_def)
  have at: "arg_chosenArm (cs ! t) = i" "arg_reward (cs ! t) = 1" using args t by simp_all
  have keep: "\<And>p. \<forall>j < length (cs[t := (cs ! t)\<lparr>pc := p\<rparr>]).
      arg_chosenArm (cs[t := (cs ! t)\<lparr>pc := p\<rparr>] ! j) = i \<and>
      arg_reward (cs[t := (cs ! t)\<lparr>pc := p\<rparr>] ! j) = 1"
    using args t by (auto simp: nth_list_update)
  show ?thesis
  proof (cases locked)
    case False
    have idl: "\<forall>j < length cs. idle (pc (cs ! j))" and cnt: "sint ?c = int ?D"
      and mn: "?m = mean_after ?D"
      using inv False unfolding atomic_inv_def Let_def by simp_all
    have "idle (pc (cs ! t))" using idl t by simp
    then have p: "pc (cs ! t) = Called"
      using st by (auto simp: idle_def Update_step_def)
    have r: "c' = (cs ! t)\<lparr>pc := Holding\<rparr>" "b' = b" "locked' = True"
      using st p False by (auto simp: Update_step_def)
    have D: "returned_count (cs[t := c']) = ?D"
      using t p r(1) by (simp add: returned_count_update_same)
    show ?thesis
      unfolding r(2,3)
    proof (rule atomic_inv_lockedI [where t = t])
      show "holder_ok (pc (cs[t := c'] ! t)) (returned_count (cs[t := c'])) ?c ?m"
        using t cnt mn D unfolding r(1) by (simp add: holder_ok_def)
      show "\<forall>j < length (cs[t := c']). j \<noteq> t \<longrightarrow> idle (pc (cs[t := c'] ! j))"
        using idl by simp
      show "\<forall>j < length (cs[t := c']).
          arg_chosenArm (cs[t := c'] ! j) = i \<and> arg_reward (cs[t := c'] ! j) = 1"
        unfolding r(1) by (rule keep)
    qed (use i0 ic ir len t in simp_all)
  next
    case True
    obtain h where h: "h < length cs" "holder_ok (pc (cs ! h)) ?D ?c ?m"
      "\<forall>j < length cs. j \<noteq> h \<longrightarrow> idle (pc (cs ! j))"
      using inv True unfolding atomic_inv_def Let_def by auto
    have th: "t = h"
    proof (rule ccontr)
      assume "t \<noteq> h"
      then have "idle (pc (cs ! t))" using h(3) t by simp
      then show False using st True by (auto simp: idle_def Update_step_def)
    qed
    have ho: "holder_ok (pc (cs ! t)) ?D ?c ?m" using h(2) th by simp
    have oth: "\<forall>j < length cs. j \<noteq> t \<longrightarrow> idle (pc (cs ! j))" using h(3) th by simp
    have nr: "pc (cs ! t) \<noteq> Returned None" using ho by (auto simp: holder_ok_def)
    have Dl: "?D < length cs" using t nr by (rule returned_count_less)
    have D63: "int ?D < 2 ^ 63 - 1"
    proof -
      have "?D + 1 < 2 ^ 63" using Dl len by simp
      then have "int (?D + 1) < 2 ^ 63" by (metis of_nat_less_numeral_power_cancel_iff)
      then show ?thesis by simp
    qed
    have oth': "\<And>p. \<forall>j < length (cs[t := (cs ! t)\<lparr>pc := p\<rparr>]). j \<noteq> t \<longrightarrow>
        idle (pc (cs[t := (cs ! t)\<lparr>pc := p\<rparr>] ! j))"
      using oth by simp
    have same: "\<And>p. p \<noteq> Returned None \<Longrightarrow>
        returned_count (cs[t := (cs ! t)\<lparr>pc := p\<rparr>]) = ?D"
      using t nr by (simp add: returned_count_update_same)
    have inside: "\<And>p (b1 :: EpsilonGreedy). holder_ok p ?D (Counts b1 ! nat i) (Rewards b1 ! nat i) \<Longrightarrow>
        length (Counts b1) = length (Counts b) \<Longrightarrow> length (Rewards b1) = length (Rewards b) \<Longrightarrow>
        atomic_inv i (cs[t := (cs ! t)\<lparr>pc := p\<rparr>], (b1, True))"
    proof -
      fix p and b1 :: EpsilonGreedy
      assume a: "holder_ok p ?D (Counts b1 ! nat i) (Rewards b1 ! nat i)"
        and l: "length (Counts b1) = length (Counts b)" "length (Rewards b1) = length (Rewards b)"
      have pn: "p \<noteq> Returned None" using a by (auto simp: holder_ok_def)
      show "atomic_inv i (cs[t := (cs ! t)\<lparr>pc := p\<rparr>], (b1, True))"
      proof (rule atomic_inv_lockedI [where t = t])
        show "holder_ok (pc (cs[t := (cs ! t)\<lparr>pc := p\<rparr>] ! t))
            (returned_count (cs[t := (cs ! t)\<lparr>pc := p\<rparr>])) (Counts b1 ! nat i) (Rewards b1 ! nat i)"
          using a t by (simp add: same [OF pn])
        show "\<forall>j < length (cs[t := (cs ! t)\<lparr>pc := p\<rparr>]). j \<noteq> t \<longrightarrow>
            idle (pc (cs[t := (cs ! t)\<lparr>pc := p\<rparr>] ! j))"
          by (rule oth')
        show "\<forall>j < length (cs[t := (cs ! t)\<lparr>pc := p\<rparr>]).
            arg_chosenArm (cs[t := (cs ! t)\<lparr>pc := p\<rparr>] ! j) = i \<and>
            arg_reward (cs[t := (cs ! t)\<lparr>pc := p\<rparr>] ! j) = 1"
          by (rule keep)
      qed (use i0 ic ir len t l in \<open>simp_all add: len_def\<close>)
    qed
    show ?thesis
    proof (cases "pc (cs ! t)")
      case Holding
      have r: "c' = (cs ! t)\<lparr>pc := Checked\<rparr>" "b' = b" "locked' = True"
        using st Holding True at i0 ir by (auto simp: Update_step_def)
      have "holder_ok Checked ?D ?c ?m" using ho Holding by (simp add: holder_ok_def)
      then show ?thesis unfolding r by (rule inside) simp_all
    next
      case Checked
      have r: "c' = (cs ! t)\<lparr>pc := Read_count ?c\<rparr>" "b' = b" "locked' = True"
        using st Checked True at ic by (auto simp: Update_step_def)
      have "holder_ok (Read_count ?c) ?D ?c ?m" using ho Checked by (simp add: holder_ok_def)
      then show ?thesis unfolding r by (rule inside) simp_all
    next
      case (Read_count tmp)
      let ?b1 = "b\<lparr>Counts := (Counts b)[nat i := tmp + 1]\<rparr>"
      have r: "c' = (cs ! t)\<lparr>pc := Wrote_count\<rparr>" "b' = ?b1" "locked' = True"
        using st Read_count True at by (auto simp: Update_step_def)
      have tmp: "tmp = ?c" "sint ?c = int ?D" "?m = mean_after ?D"
        using ho Read_count by (simp_all add: holder_ok_def)
      have "sint (?c + 1) = sint ?c + 1" using D63 tmp(2) by (intro sint_inc) simp
      then have "holder_ok Wrote_count ?D (Counts ?b1 ! nat i) (Rewards ?b1 ! nat i)"
        using tmp nic by (simp add: holder_ok_def)
      then show ?thesis unfolding r by (rule inside) simp_all
    next
      case Wrote_count
      have r: "c' = (cs ! t)\<lparr>pc := Read_n (float64_of ?c)\<rparr>" "b' = b" "locked' = True"
        using st Wrote_count True at by (auto simp: Update_step_def)
      have "holder_ok (Read_n (float64_of ?c)) ?D ?c ?m"
        using ho Wrote_count by (simp add: holder_ok_def float64_of_def)
      then show ?thesis unfolding r by (rule inside) simp_all
    next
      case (Read_n n)
      have r: "c' = (cs ! t)\<lparr>pc := Read_mean n ?m\<rparr>" "b' = b" "locked' = True"
        using st Read_n True at by (auto simp: Update_step_def)
      have "holder_ok (Read_mean n ?m) ?D ?c ?m"
        using ho Read_n by (simp add: holder_ok_def)
      then show ?thesis unfolding r by (rule inside) simp_all
    next
      case (Read_mean n v)
      let ?b1 = "b\<lparr>Rewards := (Rewards b)[nat i := (v * (n - 1) + 1) / n]\<rparr>"
      have r: "c' = (cs ! t)\<lparr>pc := Wrote_mean\<rparr>" "b' = ?b1" "locked' = True"
        using st Read_mean True at by (auto simp: Update_step_def)
      have f: "sint ?c = int ?D + 1" "n = real ?D + 1" "v = mean_after ?D"
        using ho Read_mean by (simp_all add: holder_ok_def)
      have "(v * (n - 1) + 1) / n = 1"
      proof (cases "?D = 0")
        case True
        then show ?thesis using f by (simp add: mean_after_def)
      next
        case False
        have "n \<noteq> 0" using f(2) by (simp add: add_nonneg_eq_0_iff)
        then show ?thesis using f False by (simp add: mean_after_def)
      qed
      then have "holder_ok Wrote_mean ?D (Counts ?b1 ! nat i) (Rewards ?b1 ! nat i)"
        using f nir by (simp add: holder_ok_def)
      then show ?thesis unfolding r by (rule inside) simp_all
    next
      case Wrote_mean
      have r: "c' = (cs ! t)\<lparr>pc := Returned None\<rparr>" "b' = b" "locked' = False"
        using st Wrote_mean True at by (auto simp: Update_step_def)
      have f: "sint ?c = int ?D + 1" "?m = 1"
        using ho Wrote_mean by (simp_all add: holder_ok_def)
      have D: "returned_count (cs[t := c']) = ?D + 1"
        using t nr r(1) by (simp add: returned_count_update_done)
      show ?thesis
        unfolding r(2,3)
      proof (rule atomic_inv_freeI)
        show "\<forall>j < length (cs[t := c']). idle (pc (cs[t := c'] ! j))"
          using oth t by (auto simp: nth_list_update r(1) idle_def)
        show "sint ?c = int (returned_count (cs[t := c']))" using f(1) D by simp
        show "?m = mean_after (returned_count (cs[t := c']))"
          using f(2) D by (simp add: mean_after_def)
        show "\<forall>j < length (cs[t := c']).
            arg_chosenArm (cs[t := c'] ! j) = i \<and> arg_reward (cs[t := c'] ! j) = 1"
          unfolding r(1) by (rule keep)
      qed (use i0 ic ir len in simp_all)
    qed (use ho in \<open>simp_all add: holder_ok_def\<close>)
  qed
qed


lemma run_Update_step_inv:
  "atomic_inv i cfg \<Longrightarrow> atomic_inv i (run Update_step sched cfg)"
proof (induction sched arbitrary: cfg)
  case Nil
  then show ?case by simp
next
  case (Cons t ts)
  obtain cs b locked where cfg: "cfg = (cs, (b, locked))" by (cases cfg) auto
  show ?case
  proof (cases "t < length cs")
    case False
    then show ?thesis using Cons cfg by simp
  next
    case True
    show ?thesis
    proof (cases "Update_step (cs ! t) (b, locked)")
      case None
      then show ?thesis using Cons cfg True by simp
    next
      case (Some r)
      obtain c' b' locked' where r: "r = (c', (b', locked'))" by (cases r) auto
      have "atomic_inv i (cs[t := c'], (b', locked'))"
        using Update_step_inv [of i cs b locked t c' b' locked'] Cons.prems cfg True Some r
        by simp
      then have "atomic_inv i (run Update_step ts (cs[t := c'], (b', locked')))"
        by (rule Cons.IH)
      then show ?thesis using cfg True Some r by simp
    qed
  qed
qed

lemma run_length: "length (fst (run stp sched cfg)) = length (fst cfg)"
proof (induction sched arbitrary: cfg)
  case Nil
  then show ?case by simp
next
  case (Cons t ts)
  show ?case
  proof (cases "t < length (fst cfg)")
    case False
    then show ?thesis using Cons by simp
  next
    case True
    show ?thesis
    proof (cases "stp (fst cfg ! t) (snd cfg)")
      case None
      then show ?thesis using Cons True by simp
    next
      case (Some r)
      then show ?thesis using Cons [of "((fst cfg)[t := fst r], snd r)"] True
        by (simp add: case_prod_unfold)
    qed
  qed
qed

lemma atomic_inv_initial:
  assumes "fresh_arm b i" "M < 2 ^ 63"
  shows "atomic_inv i (calls M i 1, (b, False))"
proof -
  have "returned_count (calls M i 1) = 0"
    by (simp add: returned_count_def calls_def)
  then show ?thesis
    using assms
    by (simp add: atomic_inv_def Let_def fresh_arm_def calls_def idle_def mean_after_def)
qed

lemma all_returned_count:
  assumes "all_returned cs"
  shows "returned_count cs = length cs"
  using assms by (simp add: all_returned_def returned_count_def list_all_iff)

lemma Update_atomic:
  assumes fresh: "fresh_arm b i" and M: "M < 2 ^ 63"
    and run: "run Update_step sched (calls M i 1, (b, False)) = (cs', (b', locked'))"
    and fin: "all_returned cs'"
  shows "sint (Counts b' ! nat i) = int M \<and>
         Rewards b' ! nat i = (if M = 0 then 0 else 1) \<and> \<not> locked'"
proof -
  have inv: "atomic_inv i (cs', (b', locked'))"
    using run_Update_step_inv [OF atomic_inv_initial [OF fresh M], of sched] run by simp
  have "length cs' = length (calls M i 1)"
    using run_length [of Update_step sched "(calls M i 1, (b, False))"] run by simp
  then have l: "length cs' = M" by (simp add: calls_def)
  have D: "returned_count cs' = M" using all_returned_count [OF fin] l by simp
  have nl: "\<not> locked'"
  proof
    assume "locked'"
    then obtain t where "t < length cs'"
      "holder_ok (pc (cs' ! t)) (returned_count cs') (Counts b' ! nat i) (Rewards b' ! nat i)"
      using inv unfolding atomic_inv_def Let_def by auto
    moreover have "pc (cs' ! t) = Returned None"
      using fin \<open>t < length cs'\<close> by (simp add: all_returned_def list_all_length)
    ultimately show False by (simp add: holder_ok_def)
  qed
  then show ?thesis
    using inv D unfolding atomic_inv_def Let_def by (simp add: mean_after_def)
qed

subsection \<open>A call that runs alone is the sequential call\<close>

lemma solo_Update:
  assumes "t < length cs" "pc (cs ! t) = Called"
  shows "run Update_step [t, t, t, t, t, t, t, t] (cs, (b, False))
       = (cs[t := (cs ! t)\<lparr>pc := settle (fst (Update b (arg_chosenArm (cs ! t)) (arg_reward (cs ! t)))) id\<rparr>],
          (snd (Update b (arg_chosenArm (cs ! t)) (arg_reward (cs ! t))), False))"
  using assms
  by (simp add: Update_step_def Update_def Let_def settle_def)

lemma solo_Update_greedy:
  assumes "t < length cs" "pc (cs ! t) = Called"
  shows "run Update_step_greedy [t, t, t, t, t, t, t] (cs, (b, False))
       = (cs[t := (cs ! t)\<lparr>pc := settle (fst (Update_greedy b (arg_chosenArm (cs ! t)) (arg_reward (cs ! t)))) (\<lambda>u. None)\<rparr>],
          (snd (Update_greedy b (arg_chosenArm (cs ! t)) (arg_reward (cs ! t))), False))"
  using assms
  by (simp add: Update_step_greedy_def Update_greedy_def Let_def settle_def)

lemma run_append: "run stp (xs @ ys) cfg = run stp ys (run stp xs cfg)"
proof (induction xs arbitrary: cfg)
  case Nil
  then show ?case by simp
next
  case (Cons t ts)
  then show ?case by (simp split: option.splits prod.splits)
qed

lemma one_by_one_returns:
  assumes "0 \<le> i" "i < len (Rewards b)" "i < len (Counts b)" "0 \<le> r" "k \<le> M"
  shows "\<exists>b'. run Update_step (one_by_one k) (calls M i r, (b, False))
              = (replicate k \<lparr>arg_chosenArm = i, arg_reward = r, pc = Returned None\<rparr>
                   @ replicate (M - k) \<lparr>arg_chosenArm = i, arg_reward = r, pc = Called\<rparr>,
                 (b', False)) \<and>
            length (Rewards b') = length (Rewards b) \<and> length (Counts b') = length (Counts b)"
  using assms(5)
proof (induction k)
  case 0
  then show ?case by (simp add: calls_def)
next
  case (Suc k)
  let ?d = "\<lparr>arg_chosenArm = i, arg_reward = r, pc = Returned None\<rparr>"
  let ?c = "\<lparr>arg_chosenArm = i, arg_reward = r, pc = Called\<rparr>"
  let ?cs = "replicate k ?d @ replicate (M - k) ?c"
  obtain b1 where b1: "run Update_step (one_by_one k) (calls M i r, (b, False)) = (?cs, (b1, False))"
    "length (Rewards b1) = length (Rewards b)" "length (Counts b1) = length (Counts b)"
    using Suc by auto
  have k: "k < length ?cs" using Suc.prems by simp
  have ck: "?cs ! k = ?c" using Suc.prems by (simp add: nth_append)
  have ok: "0 \<le> i" "i < len (Rewards b1)" "i < len (Counts b1)" "0 \<le> r"
    using assms(1-4) b1(2,3) by (simp_all add: len_def)
  obtain b2 where u: "Update b1 i r = (Return None, b2)"
    using Update_ok [OF ok] by simp
  have l2: "length (Rewards b2) = length (Rewards b1)" "length (Counts b2) = length (Counts b1)"
    using u unfolding Update_ok [OF ok] by auto
  have "run Update_step [k, k, k, k, k, k, k, k] (?cs, (b1, False))
      = (?cs[k := ?d], (b2, False))"
    using solo_Update [OF k, of b1] ck u by (simp add: settle_def)
  moreover have "?cs[k := ?d] = replicate (Suc k) ?d @ replicate (M - Suc k) ?c"
  proof -
    have "replicate (M - k) ?c = ?c # replicate (M - Suc k) ?c"
      using Suc.prems by (cases "M - k") (simp_all add: Suc_diff_Suc)
    then show ?thesis by (simp add: list_update_append replicate_append_same)
  qed
  ultimately have "run Update_step (one_by_one (Suc k)) (calls M i r, (b, False))
      = (replicate (Suc k) ?d @ replicate (M - Suc k) ?c, (b2, False))"
    using b1(1) by (simp only: one_by_one.simps run_append)
  then show ?case using l2 b1(2,3) by auto
qed

lemma one_by_one_all_returned:
  assumes "0 \<le> i" "i < len (Rewards b)" "i < len (Counts b)" "0 \<le> r"
  shows "all_returned (fst (run Update_step (one_by_one M) (calls M i r, (b, False))))"
proof -
  obtain b' where "run Update_step (one_by_one M) (calls M i r, (b, False))
      = (replicate M \<lparr>arg_chosenArm = i, arg_reward = r, pc = Returned None\<rparr>
           @ replicate (M - M) \<lparr>arg_chosenArm = i, arg_reward = r, pc = Called\<rparr>, (b', False))"
    using one_by_one_returns [OF assms, of M M] by auto
  then show ?thesis by (simp add: all_returned_def list_all_iff)
qed

section \<open>The claims\<close>

text \<open>
  C1. An arm that starts at count 0 and mean 0.0 and is fed the non-negative rewards
  \<open>rs\<close> in order by \<open>Update\<close>: every call succeeds, and afterwards the count of the arm
  is the number of rewards and its mean is their arithmetic average. Each successful
  call sets the count to the old count plus one and the mean to
  \<open>(oldMean * (n - 1) + reward) / n\<close>, \<open>n\<close> being the count after the increment. This
  holds in both files. The counter has 64 bits, so the number of rewards is below
  \<open>2 ^ 63\<close>; the means are real numbers, so the equality is that of exact arithmetic.
\<close>

theorem update_sequence_mean:
  fixes b :: EpsilonGreedy and g :: EpsilonGreedy_greedy
  assumes "\<forall>r \<in> set rs. 0 \<le> r" and "length rs < 2 ^ 63"
  shows "(fresh_arm b i \<longrightarrow>
            (\<exists>b'. feed b i rs = (Return None, b') \<and>
                  sint (Counts b' ! nat i) = int (length rs) \<and>
                  Rewards b' ! nat i = average rs))
       \<and> (fresh_arm g i \<longrightarrow>
            (\<exists>g'. feed_greedy g i rs = (Return (), g') \<and>
                  sint (Counts g' ! nat i) = int (length rs) \<and>
                  Rewards g' ! nat i = average rs))
       \<and> (\<forall>c r c'. Update c i r = (Return None, c') \<longrightarrow>
            Counts c' ! nat i = Counts c ! nat i + 1 \<and>
            Rewards c' ! nat i =
              (Rewards c ! nat i * (float64_of (Counts c' ! nat i) - 1) + r)
                / float64_of (Counts c' ! nat i))
       \<and> (\<forall>h r h'. Update_greedy h i r = (Return (), h') \<longrightarrow>
            Counts h' ! nat i = Counts h ! nat i + 1 \<and>
            Rewards h' ! nat i =
              (Rewards h ! nat i * (float64_of (Counts h' ! nat i) - 1) + r)
                / float64_of (Counts h' ! nat i))"
proof (intro conjI impI allI)
  assume "fresh_arm b i"
  then show "\<exists>b'. feed b i rs = (Return None, b') \<and>
      sint (Counts b' ! nat i) = int (length rs) \<and> Rewards b' ! nat i = average rs"
    using assms by (rule feed_fresh)
next
  assume "fresh_arm g i"
  then show "\<exists>g'. feed_greedy g i rs = (Return (), g') \<and>
      sint (Counts g' ! nat i) = int (length rs) \<and> Rewards g' ! nat i = average rs"
    using assms(2) by (rule feed_greedy_fresh)
next
  fix c r c' assume u: "Update c i r = (Return None, c')"
  show "Counts c' ! nat i = Counts c ! nat i + 1"
    using Update_step_formula [OF u] by simp
  show "Rewards c' ! nat i =
      (Rewards c ! nat i * (float64_of (Counts c' ! nat i) - 1) + r)
        / float64_of (Counts c' ! nat i)"
    using Update_step_formula [OF u] by simp
next
  fix h r h' assume u: "Update_greedy h i r = (Return (), h')"
  show "Counts h' ! nat i = Counts h ! nat i + 1"
    using Update_greedy_step_formula [OF u] by simp
  show "Rewards h' ! nat i =
      (Rewards h ! nat i * (float64_of (Counts h' ! nat i) - 1) + r)
        / float64_of (Counts h' ! nat i)"
    using Update_greedy_step_formula [OF u] by simp
qed

theorem update_sequence_mean_witness:
  "length [1, 0, 2 :: real] < 2 ^ 63 \<and>
   fresh_arm \<lparr>Epsilon = 1 / 10, Counts = [5, 0], Rewards = [1 / 2, 0]\<rparr> 1 \<and>
   fresh_arm \<lparr>Epsilon = 1 / 10, Counts = [5, 0], Rewards = [1 / 2, 0], N = 2\<rparr> 1 \<and>
   (\<exists>b'. feed \<lparr>Epsilon = 1 / 10, Counts = [5, 0], Rewards = [1 / 2, 0]\<rparr> 1 [1, 0, 2]
            = (Return None, b') \<and>
          sint (Counts b' ! 1) = 3 \<and> Rewards b' ! 1 = 1) \<and>
   (\<exists>g'. feed_greedy \<lparr>Epsilon = 1 / 10, Counts = [5, 0], Rewards = [1 / 2, 0], N = 2\<rparr> 1 [1, 0, 2]
            = (Return (), g') \<and>
          sint (Counts g' ! 1) = 3 \<and> Rewards g' ! 1 = 1)"
proof -
  let ?b = "\<lparr>Epsilon = 1 / 10, Counts = [5, 0], Rewards = [1 / 2, 0]\<rparr>"
  let ?g = "\<lparr>Epsilon = 1 / 10, Counts = [5, 0], Rewards = [1 / 2, 0], N = 2\<rparr>"
  have h1: "\<forall>r \<in> set [1, 0, 2 :: real]. 0 \<le> r" by simp
  have h2: "length [1, 0, 2 :: real] < 2 ^ 63" by simp
  have fb: "fresh_arm ?b 1" by (simp add: fresh_arm_def len_def)
  have fg: "fresh_arm ?g 1" by (simp add: fresh_arm_def len_def)
  have av: "average [1, 0, 2] = 1" by (simp add: average_def)
  note t = update_sequence_mean [OF h1 h2, of ?b 1 ?g]
  have "\<exists>b'. feed ?b 1 [1, 0, 2] = (Return None, b') \<and>
      sint (Counts b' ! nat 1) = int (length [1, 0, 2 :: real]) \<and>
      Rewards b' ! nat 1 = average [1, 0, 2]"
    using t fb by blast
  then have cb: "\<exists>b'. feed ?b 1 [1, 0, 2] = (Return None, b') \<and>
      sint (Counts b' ! 1) = 3 \<and> Rewards b' ! 1 = 1"
    by (simp only: av nat_1 list.size One_nat_def) simp
  have "\<exists>g'. feed_greedy ?g 1 [1, 0, 2] = (Return (), g') \<and>
      sint (Counts g' ! nat 1) = int (length [1, 0, 2 :: real]) \<and>
      Rewards g' ! nat 1 = average [1, 0, 2]"
    using t fg by blast
  then have cg: "\<exists>g'. feed_greedy ?g 1 [1, 0, 2] = (Return (), g') \<and>
      sint (Counts g' ! 1) = 3 \<and> Rewards g' ! 1 = 1"
    by (simp only: av nat_1 list.size One_nat_def) simp
  show ?thesis using h2 fb fg cb cg by blast
qed

text \<open>
  C2. With at least one arm: a draw greater than \<open>Epsilon\<close> makes \<open>SelectArm\<close> return,
  with certainty, an index whose mean no other mean exceeds (exploit); a draw less than
  or equal to \<open>Epsilon\<close>, the draw equal to \<open>Epsilon\<close> included, makes it return the
  result of \<open>rand.Intn\<close> on the number of arms, the uniform distribution on \<open>[0, N)\<close>
  (explore). The state is returned as it was. This holds in both files; in
  \<^verbatim>\<open>greedy.go\<close> the draw is the value of \<open>rand.Float64()\<close>.
\<close>

theorem select_arm_decision_rule:
  fixes b :: EpsilonGreedy and g :: EpsilonGreedy_greedy
  shows "(Rewards b \<noteq> [] \<longrightarrow>
           (draw > Epsilon b \<longrightarrow>
              (\<exists>m. SelectArm b draw = (Return (certainly m), b) \<and>
                   0 \<le> m \<and> m < len (Rewards b) \<and>
                   (\<forall>j < length (Rewards b). Rewards b ! j \<le> Rewards b ! nat m))) \<and>
           (draw \<le> Epsilon b \<longrightarrow>
              SelectArm b draw = (Return (uniform (len (Rewards b))), b)))
       \<and> (Rewards g \<noteq> [] \<longrightarrow>
           (draw > Epsilon g \<longrightarrow>
              (\<exists>m. SelectArm_greedy g draw = (Return (certainly m), g) \<and>
                   0 \<le> m \<and> m < len (Rewards g) \<and>
                   (\<forall>j < length (Rewards g). Rewards g ! j \<le> Rewards g ! nat m))) \<and>
           (draw \<le> Epsilon g \<longrightarrow>
              SelectArm_greedy g draw = (Return (uniform (len (Rewards g))), g)))"
proof (intro conjI impI)
  assume "Rewards b \<noteq> []" "Epsilon b < draw"
  then obtain m where "SelectArm b draw = (Return (certainly m), b)" "first_max (Rewards b) m"
    using SelectArm_exploit by blast
  then show "\<exists>m. SelectArm b draw = (Return (certainly m), b) \<and>
      0 \<le> m \<and> m < len (Rewards b) \<and>
      (\<forall>j < length (Rewards b). Rewards b ! j \<le> Rewards b ! nat m)"
    unfolding first_max_def by blast
next
  assume "Rewards b \<noteq> []" "draw \<le> Epsilon b"
  then show "SelectArm b draw = (Return (uniform (len (Rewards b))), b)"
    by (simp add: SelectArm_explore)
next
  assume "Rewards g \<noteq> []" "Epsilon g < draw"
  then obtain m where "SelectArm_greedy g draw = (Return (certainly m), g)"
    "first_max (Rewards g) m"
    using SelectArm_greedy_exploit by blast
  then show "\<exists>m. SelectArm_greedy g draw = (Return (certainly m), g) \<and>
      0 \<le> m \<and> m < len (Rewards g) \<and>
      (\<forall>j < length (Rewards g). Rewards g ! j \<le> Rewards g ! nat m)"
    unfolding first_max_def by blast
next
  assume "Rewards g \<noteq> []" "draw \<le> Epsilon g"
  then show "SelectArm_greedy g draw = (Return (uniform (len (Rewards g))), g)"
    by (simp add: SelectArm_greedy_explore)
qed

theorem select_arm_decision_rule_witness:
  "Rewards \<lparr>Epsilon = 1 / 10, Counts = [4, 7, 2], Rewards = [1 / 5, 9 / 10, 1 / 2]\<rparr> \<noteq> [] \<and>
   SelectArm \<lparr>Epsilon = 1 / 10, Counts = [4, 7, 2], Rewards = [1 / 5, 9 / 10, 1 / 2]\<rparr> 1
     = (Return (certainly 1), \<lparr>Epsilon = 1 / 10, Counts = [4, 7, 2], Rewards = [1 / 5, 9 / 10, 1 / 2]\<rparr>) \<and>
   SelectArm \<lparr>Epsilon = 1 / 10, Counts = [4, 7, 2], Rewards = [1 / 5, 9 / 10, 1 / 2]\<rparr> (1 / 10)
     = (Return (uniform 3), \<lparr>Epsilon = 1 / 10, Counts = [4, 7, 2], Rewards = [1 / 5, 9 / 10, 1 / 2]\<rparr>) \<and>
   SelectArm_greedy \<lparr>Epsilon = 1 / 10, Counts = [4, 7, 2], Rewards = [1 / 5, 9 / 10, 1 / 2], N = 3\<rparr> 0
     = (Return (uniform 3),
        \<lparr>Epsilon = 1 / 10, Counts = [4, 7, 2], Rewards = [1 / 5, 9 / 10, 1 / 2], N = 3\<rparr>) \<and>
   uniform 3 2 = 1 / 3"
proof -
  let ?b = "\<lparr>Epsilon = 1 / 10, Counts = [4, 7, 2], Rewards = [1 / 5, 9 / 10, 1 / 2]\<rparr>"
  let ?g = "\<lparr>Epsilon = 1 / 10, Counts = [4, 7, 2], Rewards = [1 / 5, 9 / 10, 1 / 2], N = 3\<rparr>"
  have ne: "Rewards ?b \<noteq> []" "Rewards ?g \<noteq> []" by simp_all
  have hi: "1 > Epsilon ?b" by simp
  have lo: "1 / 10 \<le> Epsilon ?b" "0 \<le> Epsilon ?g" by simp_all
  note t1 = select_arm_decision_rule [of ?b 1 ?g]
  note t2 = select_arm_decision_rule [of ?b "1 / 10" ?g]
  note t3 = select_arm_decision_rule [of ?b 0 ?g]
  obtain m where m: "SelectArm ?b 1 = (Return (certainly m), ?b)" "0 \<le> m" "m < len (Rewards ?b)"
    "\<forall>j < length (Rewards ?b). Rewards ?b ! j \<le> Rewards ?b ! nat m"
    using t1 ne(1) hi by blast
  have "m = 1"
  proof -
    have "m = 0 \<or> m = 1 \<or> m = 2" using m(2,3) by (auto simp: len_def)
    moreover have "Rewards ?b ! 1 \<le> Rewards ?b ! nat m"
      using m(4) [rule_format, of 1] by simp
    ultimately show ?thesis by auto
  qed
  then have c1: "SelectArm ?b 1 = (Return (certainly 1), ?b)" using m(1) by simp
  have c2: "SelectArm ?b (1 / 10) = (Return (uniform 3), ?b)"
    using t2 ne(1) lo(1) by (simp add: len_def)
  have c3: "SelectArm_greedy ?g 0 = (Return (uniform 3), ?g)"
    using t3 ne(2) lo(2) by (simp add: len_def)
  have u: "uniform 3 2 = 1 / 3" by (simp add: uniform_def)
  show ?thesis using ne(1) c1 c2 c3 u by blast
qed

text \<open>
  C3, as amended. In \<^verbatim>\<open>epsilon_greedy.go\<close>, \<open>Update\<close> with an index outside \<open>[0, N)\<close>
  returns \<open>ErrArmsIndexOutOfRange\<close>, with an index in range and a negative reward it
  returns \<open>ErrInvalidReward\<close>, and whenever it returns an error the state is the one
  it was called on. In \<^verbatim>\<open>greedy.go\<close>, \<open>Update\<close> has no error result: an index outside
  the counts panics before anything is written, and with an index in range the call
  returns whatever the reward is.
\<close>

theorem update_errors_leave_state:
  fixes b :: EpsilonGreedy and g :: EpsilonGreedy_greedy
  shows "((chosenArm < 0 \<or> len (Rewards b) \<le> chosenArm) \<longrightarrow>
            Update b chosenArm reward = (Return (Some ErrArmsIndexOutOfRange), b))
       \<and> (0 \<le> chosenArm \<and> chosenArm < len (Rewards b) \<and> reward < 0 \<longrightarrow>
            Update b chosenArm reward = (Return (Some ErrInvalidReward), b))
       \<and> (\<forall>e. fst (Update b chosenArm reward) = Return (Some e) \<longrightarrow>
            snd (Update b chosenArm reward) = b)
       \<and> ((chosenArm < 0 \<or> len (Counts g) \<le> chosenArm) \<longrightarrow>
            Update_greedy g chosenArm reward = (Panic, g))
       \<and> (0 \<le> chosenArm \<and> chosenArm < len (Counts g) \<and> chosenArm < len (Rewards g) \<longrightarrow>
            fst (Update_greedy g chosenArm reward) = Return ())"
proof (intro conjI impI allI)
  assume "chosenArm < 0 \<or> len (Rewards b) \<le> chosenArm"
  then show "Update b chosenArm reward = (Return (Some ErrArmsIndexOutOfRange), b)"
    by (auto simp: Update_def)
next
  assume "0 \<le> chosenArm \<and> chosenArm < len (Rewards b) \<and> reward < 0"
  then show "Update b chosenArm reward = (Return (Some ErrInvalidReward), b)"
    by (simp add: Update_def)
next
  fix e assume "fst (Update b chosenArm reward) = Return (Some e)"
  then show "snd (Update b chosenArm reward) = b"
    by (auto simp: Update_def Let_def split: if_splits)
next
  assume "chosenArm < 0 \<or> len (Counts g) \<le> chosenArm"
  then show "Update_greedy g chosenArm reward = (Panic, g)"
    by (auto simp: Update_greedy_def)
next
  assume "0 \<le> chosenArm \<and> chosenArm < len (Counts g) \<and> chosenArm < len (Rewards g)"
  then show "fst (Update_greedy g chosenArm reward) = Return ()"
    by (simp add: Update_greedy_ok)
qed

theorem update_errors_leave_state_witness:
  "Update \<lparr>Epsilon = 1 / 10, Counts = [3, 1], Rewards = [1, 2]\<rparr> 2 1
     = (Return (Some ErrArmsIndexOutOfRange), \<lparr>Epsilon = 1 / 10, Counts = [3, 1], Rewards = [1, 2]\<rparr>) \<and>
   Update \<lparr>Epsilon = 1 / 10, Counts = [3, 1], Rewards = [1, 2]\<rparr> (- 1) 1
     = (Return (Some ErrArmsIndexOutOfRange), \<lparr>Epsilon = 1 / 10, Counts = [3, 1], Rewards = [1, 2]\<rparr>) \<and>
   Update \<lparr>Epsilon = 1 / 10, Counts = [3, 1], Rewards = [1, 2]\<rparr> 1 (- 1)
     = (Return (Some ErrInvalidReward), \<lparr>Epsilon = 1 / 10, Counts = [3, 1], Rewards = [1, 2]\<rparr>) \<and>
   Update_greedy \<lparr>Epsilon = 1 / 10, Counts = [3, 1], Rewards = [1, 2], N = 2\<rparr> 2 1
     = (Panic, \<lparr>Epsilon = 1 / 10, Counts = [3, 1], Rewards = [1, 2], N = 2\<rparr>) \<and>
   fst (Update_greedy \<lparr>Epsilon = 1 / 10, Counts = [3, 1], Rewards = [1, 2], N = 2\<rparr> 1 (- 1))
     = Return ()"
proof -
  let ?b = "\<lparr>Epsilon = 1 / 10, Counts = [3, 1], Rewards = [1, 2 :: real]\<rparr>"
  let ?g = "\<lparr>Epsilon = 1 / 10, Counts = [3, 1], Rewards = [1, 2 :: real], N = 2\<rparr>"
  have a: "(2 :: int) < 0 \<or> len (Rewards ?b) \<le> 2" "(- 1 :: int) < 0 \<or> len (Rewards ?b) \<le> - 1"
    "(0 :: int) \<le> 1 \<and> 1 < len (Rewards ?b) \<and> (- 1 :: real) < 0"
    "(2 :: int) < 0 \<or> len (Counts ?g) \<le> 2"
    "(0 :: int) \<le> 1 \<and> 1 < len (Counts ?g) \<and> 1 < len (Rewards ?g)"
    by (simp_all add: len_def)
  show ?thesis
    using update_errors_leave_state [of 2 ?b 1 ?g] update_errors_leave_state [of "- 1" ?b 1 ?g]
      update_errors_leave_state [of 1 ?b "- 1" ?g] a
    by blast
qed

text \<open>
  C3 as stated fails in \<^verbatim>\<open>greedy.go\<close>: on one fresh arm, \<open>Update(0, -1.0)\<close> returns
  normally and leaves count 1 and mean \<open>-1\<close>.
\<close>

theorem update_greedy_accepts_negative_reward:
  "Update_greedy \<lparr>Epsilon = 1 / 10, Counts = [0], Rewards = [0], N = 1\<rparr> 0 (- 1)
     = (Return (), \<lparr>Epsilon = 1 / 10, Counts = [1], Rewards = [- 1], N = 1\<rparr>)"
  by (simp add: Update_greedy_def Let_def len_def float64_of_def)

text \<open>
  C4, as amended. In \<^verbatim>\<open>epsilon_greedy.go\<close>, \<open>Init\<close> with \<open>nArms \<ge> 1\<close> succeeds and
  leaves \<open>nArms\<close> arms of count 0 and mean 0.0, and with \<open>nArms < 1\<close> it returns
  \<open>ErrInvalidArms\<close> and leaves the state as it was; \<open>NewEpsilonGreedy\<close> returns
  \<open>ErrInvalidEpsilon\<close> when epsilon is below 0 or above 1; for epsilon in \<open>[0, 1]\<close> and
  \<open>nArms \<ge> 1\<close>, constructing from empty slices and then initialising gives epsilon and
  \<open>nArms\<close> zeroed arms. In \<^verbatim>\<open>greedy.go\<close>, \<open>NewEpsilonGreedy\<close> validates nothing: for
  every \<open>nArms \<ge> 0\<close> and every epsilon it returns \<open>nArms\<close> zeroed arms, and a negative
  \<open>nArms\<close> panics in \<open>make\<close>.
\<close>

theorem construction_validation:
  fixes b :: EpsilonGreedy
  shows "(1 \<le> nArms \<longrightarrow>
            Init b nArms
              = (Return None,
                 b\<lparr>Counts := replicate (nat nArms) 0, Rewards := replicate (nat nArms) 0\<rparr>))
       \<and> (nArms < 1 \<longrightarrow> Init b nArms = (Return (Some ErrInvalidArms), b))
       \<and> (epsilon < 0 \<or> 1 < epsilon \<longrightarrow>
            NewEpsilonGreedy epsilon counts rewards = Inl ErrInvalidEpsilon)
       \<and> (0 \<le> epsilon \<and> epsilon \<le> 1 \<and> 1 \<le> nArms \<longrightarrow>
            (\<exists>b0. NewEpsilonGreedy epsilon [] [] = Inr b0 \<and>
                  Init b0 nArms
                    = (Return None,
                       \<lparr>Epsilon = epsilon, Counts = replicate (nat nArms) 0,
                        Rewards = replicate (nat nArms) 0\<rparr>)))
       \<and> (0 \<le> nArms \<longrightarrow>
            NewEpsilonGreedy_greedy nArms epsilon
              = Return \<lparr>Epsilon = epsilon, Counts = replicate (nat nArms) 0,
                        Rewards = replicate (nat nArms) 0, N = nArms\<rparr>)
       \<and> (nArms < 0 \<longrightarrow> NewEpsilonGreedy_greedy nArms epsilon = Panic)"
  by (auto simp: Init_def NewEpsilonGreedy_def NewEpsilonGreedy_greedy_def make_slice_def len_def)

theorem construction_validation_witness:
  "Init \<lparr>Epsilon = 1 / 10, Counts = [], Rewards = []\<rparr> 2
     = (Return None, \<lparr>Epsilon = 1 / 10, Counts = [0, 0], Rewards = [0, 0]\<rparr>) \<and>
   Init \<lparr>Epsilon = 1 / 10, Counts = [], Rewards = []\<rparr> 0
     = (Return (Some ErrInvalidArms), \<lparr>Epsilon = 1 / 10, Counts = [], Rewards = []\<rparr>) \<and>
   NewEpsilonGreedy (101 / 100) [0] [0] = Inl ErrInvalidEpsilon \<and>
   NewEpsilonGreedy (- (1 / 100)) [0] [0] = Inl ErrInvalidEpsilon \<and>
   NewEpsilonGreedy_greedy 2 (1 / 10)
     = Return \<lparr>Epsilon = 1 / 10, Counts = [0, 0], Rewards = [0, 0], N = 2\<rparr> \<and>
   NewEpsilonGreedy_greedy (- 1) (1 / 10) = Panic"
proof -
  let ?b = "\<lparr>Epsilon = 1 / 10, Counts = [], Rewards = []\<rparr>"
  have r2: "replicate (nat 2) (0 :: int64) = [0, 0]" "replicate (nat 2) (0 :: real) = [0, 0]"
    by (simp_all add: numeral_2_eq_2)
  note t1 = construction_validation [of 2 ?b "1 / 10" "[0]" "[0]"]
  note t2 = construction_validation [of 0 ?b "101 / 100" "[0]" "[0]"]
  note t3 = construction_validation [of "- 1" ?b "- (1 / 100)" "[0]" "[0]"]
  have c1: "Init ?b 2 = (Return None, \<lparr>Epsilon = 1 / 10, Counts = [0, 0], Rewards = [0, 0]\<rparr>)"
    using t1 r2 by simp
  have c2: "Init ?b 0 = (Return (Some ErrInvalidArms), ?b)" using t2 by simp
  have c3: "NewEpsilonGreedy (101 / 100) [0] [0] = Inl ErrInvalidEpsilon" using t2 by simp
  have c4: "NewEpsilonGreedy (- (1 / 100)) [0] [0] = Inl ErrInvalidEpsilon" using t3 by simp
  have c5: "NewEpsilonGreedy_greedy 2 (1 / 10)
     = Return \<lparr>Epsilon = 1 / 10, Counts = [0, 0], Rewards = [0, 0], N = 2\<rparr>"
    using t1 r2 by simp
  have c6: "NewEpsilonGreedy_greedy (- 1) (1 / 10) = Panic"
    using construction_validation [of "- 1" ?b "1 / 10" "[0]" "[0]"] by simp
  show ?thesis using c1 c2 c3 c4 c5 c6 by blast
qed

text \<open>
  C4 as stated fails in \<^verbatim>\<open>greedy.go\<close>: \<open>NewEpsilonGreedy(0, 1.01)\<close> returns a state with
  no arm and epsilon 1.01, and no error.
\<close>

theorem new_epsilon_greedy_greedy_unvalidated:
  "NewEpsilonGreedy_greedy 0 (101 / 100)
     = Return \<lparr>Epsilon = 101 / 100, Counts = [], Rewards = [], N = 0\<rparr>"
  by (simp add: NewEpsilonGreedy_greedy_def make_slice_def)

text \<open>
  C5. In exploit mode (a draw greater than \<open>Epsilon\<close>, at least one arm), \<open>SelectArm\<close>
  returns with certainty an index \<open>m\<close> whose mean is the maximum of the means and which
  is the lowest index of that maximum: every index holding the maximum is at least
  \<open>m\<close>. A further exploit call on the state the first call leaves returns the same
  index and the same state. Both files.
\<close>

theorem exploit_tie_break:
  fixes b :: EpsilonGreedy and g :: EpsilonGreedy_greedy
  shows "(Rewards b \<noteq> [] \<and> draw > Epsilon b \<longrightarrow>
           (\<exists>m. SelectArm b draw = (Return (certainly m), b) \<and>
                0 \<le> m \<and> m < len (Rewards b) \<and>
                Rewards b ! nat m = Max (set (Rewards b)) \<and>
                (\<forall>j < length (Rewards b).
                   Rewards b ! j = Max (set (Rewards b)) \<longrightarrow> m \<le> int j) \<and>
                (\<forall>draw'. draw' > Epsilon b \<longrightarrow>
                   SelectArm (snd (SelectArm b draw)) draw' = (Return (certainly m), b))))
       \<and> (Rewards g \<noteq> [] \<and> draw > Epsilon g \<longrightarrow>
           (\<exists>m. SelectArm_greedy g draw = (Return (certainly m), g) \<and>
                0 \<le> m \<and> m < len (Rewards g) \<and>
                Rewards g ! nat m = Max (set (Rewards g)) \<and>
                (\<forall>j < length (Rewards g).
                   Rewards g ! j = Max (set (Rewards g)) \<longrightarrow> m \<le> int j) \<and>
                (\<forall>draw'. draw' > Epsilon g \<longrightarrow>
                   SelectArm_greedy (snd (SelectArm_greedy g draw)) draw'
                     = (Return (certainly m), g))))"
proof (intro conjI impI)
  assume a: "Rewards b \<noteq> [] \<and> Epsilon b < draw"
  then obtain m where m: "SelectArm b draw = (Return (certainly m), b)"
    "first_max (Rewards b) m"
    using SelectArm_exploit by blast
  have r: "\<forall>draw'. draw' > Epsilon b \<longrightarrow>
      SelectArm (snd (SelectArm b draw)) draw' = (Return (certainly m), b)"
  proof (intro allI impI)
    fix draw' assume d: "Epsilon b < draw'"
    obtain m' where m': "SelectArm b draw' = (Return (certainly m'), b)"
      "first_max (Rewards b) m'"
      using SelectArm_exploit [OF d] a by blast
    have "m' = m" using m(2) m'(2) by (rule first_max_unique [symmetric])
    then show "SelectArm (snd (SelectArm b draw)) draw' = (Return (certainly m), b)"
      using m(1) m'(1) by simp
  qed
  have "0 \<le> m" "m < len (Rewards b)" using m(2) by (simp_all add: first_max_def)
  moreover have "Rewards b ! nat m = Max (set (Rewards b))"
    using m(2) by (rule first_max_Max)
  moreover have "\<forall>j < length (Rewards b). Rewards b ! j = Max (set (Rewards b)) \<longrightarrow> m \<le> int j"
    using first_max_least [OF m(2)] by blast
  ultimately show "\<exists>m. SelectArm b draw = (Return (certainly m), b) \<and>
      0 \<le> m \<and> m < len (Rewards b) \<and>
      Rewards b ! nat m = Max (set (Rewards b)) \<and>
      (\<forall>j < length (Rewards b). Rewards b ! j = Max (set (Rewards b)) \<longrightarrow> m \<le> int j) \<and>
      (\<forall>draw'. draw' > Epsilon b \<longrightarrow>
         SelectArm (snd (SelectArm b draw)) draw' = (Return (certainly m), b))"
    using m(1) r by blast
next
  assume a: "Rewards g \<noteq> [] \<and> Epsilon g < draw"
  then obtain m where m: "SelectArm_greedy g draw = (Return (certainly m), g)"
    "first_max (Rewards g) m"
    using SelectArm_greedy_exploit by blast
  have r: "\<forall>draw'. draw' > Epsilon g \<longrightarrow>
      SelectArm_greedy (snd (SelectArm_greedy g draw)) draw' = (Return (certainly m), g)"
  proof (intro allI impI)
    fix draw' assume d: "Epsilon g < draw'"
    obtain m' where m': "SelectArm_greedy g draw' = (Return (certainly m'), g)"
      "first_max (Rewards g) m'"
      using SelectArm_greedy_exploit [OF d] a by blast
    have "m' = m" using m(2) m'(2) by (rule first_max_unique [symmetric])
    then show "SelectArm_greedy (snd (SelectArm_greedy g draw)) draw' = (Return (certainly m), g)"
      using m(1) m'(1) by simp
  qed
  have "0 \<le> m" "m < len (Rewards g)" using m(2) by (simp_all add: first_max_def)
  moreover have "Rewards g ! nat m = Max (set (Rewards g))"
    using m(2) by (rule first_max_Max)
  moreover have "\<forall>j < length (Rewards g). Rewards g ! j = Max (set (Rewards g)) \<longrightarrow> m \<le> int j"
    using first_max_least [OF m(2)] by blast
  ultimately show "\<exists>m. SelectArm_greedy g draw = (Return (certainly m), g) \<and>
      0 \<le> m \<and> m < len (Rewards g) \<and>
      Rewards g ! nat m = Max (set (Rewards g)) \<and>
      (\<forall>j < length (Rewards g). Rewards g ! j = Max (set (Rewards g)) \<longrightarrow> m \<le> int j) \<and>
      (\<forall>draw'. draw' > Epsilon g \<longrightarrow>
         SelectArm_greedy (snd (SelectArm_greedy g draw)) draw' = (Return (certainly m), g))"
    using m(1) r by blast
qed

theorem exploit_tie_break_witness:
  "Rewards \<lparr>Epsilon = 1 / 10, Counts = [2, 2, 1], Rewards = [1 / 2, 1 / 2, 1 / 10]\<rparr> \<noteq> [] \<and>
   1 > Epsilon \<lparr>Epsilon = 1 / 10, Counts = [2, 2, 1], Rewards = [1 / 2, 1 / 2, 1 / 10]\<rparr> \<and>
   SelectArm \<lparr>Epsilon = 1 / 10, Counts = [2, 2, 1], Rewards = [1 / 2, 1 / 2, 1 / 10]\<rparr> 1
     = (Return (certainly 0),
        \<lparr>Epsilon = 1 / 10, Counts = [2, 2, 1], Rewards = [1 / 2, 1 / 2, 1 / 10]\<rparr>) \<and>
   SelectArm_greedy
       \<lparr>Epsilon = 1 / 10, Counts = [2, 2, 1], Rewards = [1 / 2, 1 / 2, 1 / 10], N = 3\<rparr> 1
     = (Return (certainly 0),
        \<lparr>Epsilon = 1 / 10, Counts = [2, 2, 1], Rewards = [1 / 2, 1 / 2, 1 / 10], N = 3\<rparr>)"
proof -
  let ?b = "\<lparr>Epsilon = 1 / 10, Counts = [2, 2, 1], Rewards = [1 / 2, 1 / 2, 1 / 10 :: real]\<rparr>"
  let ?g = "\<lparr>Epsilon = 1 / 10, Counts = [2, 2, 1], Rewards = [1 / 2, 1 / 2, 1 / 10 :: real],
             N = 3\<rparr>"
  have ne: "Rewards ?b \<noteq> []" "Rewards ?g \<noteq> []" by simp_all
  have hi: "1 > Epsilon ?b" "1 > Epsilon ?g" by simp_all
  have mx: "Max (set [1 / 2, 1 / 2, 1 / 10 :: real]) = 1 / 2" by simp
  note t = exploit_tie_break [of ?b 1 ?g]
  obtain m where m: "SelectArm ?b 1 = (Return (certainly m), ?b)" "0 \<le> m"
    "\<forall>j < length (Rewards ?b). Rewards ?b ! j = Max (set (Rewards ?b)) \<longrightarrow> m \<le> int j"
    using t ne(1) hi(1) by blast
  have "m \<le> int 0" using m(3) [rule_format, of 0] mx by simp
  then have "m = 0" using m(2) by simp
  then have c1: "SelectArm ?b 1 = (Return (certainly 0), ?b)" using m(1) by simp
  obtain k where k: "SelectArm_greedy ?g 1 = (Return (certainly k), ?g)" "0 \<le> k"
    "\<forall>j < length (Rewards ?g). Rewards ?g ! j = Max (set (Rewards ?g)) \<longrightarrow> k \<le> int j"
    using t ne(2) hi(2) by blast
  have "k \<le> int 0" using k(3) [rule_format, of 0] mx by simp
  then have "k = 0" using k(2) by simp
  then have c2: "SelectArm_greedy ?g 1 = (Return (certainly 0), ?g)" using k(1) by simp
  show ?thesis using ne(1) hi(1) c1 c2 by blast
qed

text \<open>
  C6, as amended. \<open>len(Counts) = len(Rewards)\<close> holds after every successful
  \<open>NewEpsilonGreedy\<close> (both files) and every successful \<open>Init\<close>, and \<open>Init\<close>, \<open>SelectArm\<close>,
  \<open>Update\<close>, \<open>GetCounts\<close> and \<open>GetRewards\<close> preserve it. \<open>SetCounts\<close> and \<open>SetRewards\<close>
  leave it true exactly when the sequence they are given is as long as the other
  sequence of the state.
\<close>

theorem lengths_agree_invariant:
  fixes b b0 :: EpsilonGreedy and g g0 :: EpsilonGreedy_greedy
  shows "(NewEpsilonGreedy epsilon counts rewards = Inr b0 \<longrightarrow> lengths_agree b0)
       \<and> (NewEpsilonGreedy_greedy nArms epsilon = Return g0 \<longrightarrow> lengths_agree g0)
       \<and> (fst (Init b nArms) = Return None \<longrightarrow> lengths_agree (snd (Init b nArms)))
       \<and> (lengths_agree b \<longrightarrow>
            lengths_agree (snd (Init b nArms)) \<and>
            lengths_agree (snd (SelectArm b draw)) \<and>
            lengths_agree (snd (Update b i r)) \<and>
            lengths_agree (snd (GetCounts b)) \<and>
            lengths_agree (snd (GetRewards b)))
       \<and> (lengths_agree g \<longrightarrow>
            lengths_agree (snd (SelectArm_greedy g draw)) \<and>
            lengths_agree (snd (Update_greedy g i r)))
       \<and> (lengths_agree (SetCounts g cs) \<longleftrightarrow> len cs = len (Rewards g))
       \<and> (lengths_agree (SetRewards g rs) \<longleftrightarrow> len rs = len (Counts g))"
proof (intro conjI impI)
  assume "NewEpsilonGreedy epsilon counts rewards = Inr b0"
  then show "lengths_agree b0"
    by (auto simp: NewEpsilonGreedy_def lengths_agree_def split: if_splits)
next
  assume "NewEpsilonGreedy_greedy nArms epsilon = Return g0"
  then show "lengths_agree g0"
    by (auto simp: NewEpsilonGreedy_greedy_def make_slice_def lengths_agree_def len_def
        split: if_splits)
next
  assume "fst (Init b nArms) = Return None"
  then show "lengths_agree (snd (Init b nArms))"
    by (simp add: Init_def lengths_agree_def len_def split: if_splits)
next
  assume a: "lengths_agree b"
  show "lengths_agree (snd (Init b nArms))"
    using a by (simp add: Init_def lengths_agree_def len_def)
  show "lengths_agree (snd (SelectArm b draw))"
    using a by (simp add: SelectArm_def)
  show "lengths_agree (snd (Update b i r))"
    using a by (simp add: Update_def Let_def lengths_agree_def len_def)
  show "lengths_agree (snd (GetCounts b))"
    using a by (simp add: GetCounts_def)
  show "lengths_agree (snd (GetRewards b))"
    using a by (simp add: GetRewards_def)
next
  assume a: "lengths_agree g"
  show "lengths_agree (snd (SelectArm_greedy g draw))"
    using a by (simp add: SelectArm_greedy_def Let_def)
  show "lengths_agree (snd (Update_greedy g i r))"
    using a by (simp add: Update_greedy_def Let_def lengths_agree_def len_def)
next
  show "lengths_agree (SetCounts g cs) \<longleftrightarrow> len cs = len (Rewards g)"
    by (simp add: SetCounts_def lengths_agree_def)
  show "lengths_agree (SetRewards g rs) \<longleftrightarrow> len rs = len (Counts g)"
    by (auto simp: SetRewards_def lengths_agree_def)
qed

theorem lengths_agree_invariant_witness:
  "NewEpsilonGreedy (1 / 10) [3, 1] [1, 2] = Inr \<lparr>Epsilon = 1 / 10, Counts = [3, 1], Rewards = [1, 2]\<rparr> \<and>
   lengths_agree \<lparr>Epsilon = 1 / 10, Counts = [3, 1], Rewards = [1, 2]\<rparr> \<and>
   lengths_agree (snd (Update \<lparr>Epsilon = 1 / 10, Counts = [3, 1], Rewards = [1, 2]\<rparr> 1 4)) \<and>
   lengths_agree (snd (Init \<lparr>Epsilon = 1 / 10, Counts = [3, 1], Rewards = [1, 2]\<rparr> 5)) \<and>
   lengths_agree \<lparr>Epsilon = 1 / 10, Counts = [3, 1], Rewards = [1, 2], N = 2\<rparr> \<and>
   lengths_agree (snd (Update_greedy \<lparr>Epsilon = 1 / 10, Counts = [3, 1], Rewards = [1, 2], N = 2\<rparr> 1 4)) \<and>
   lengths_agree (SetCounts \<lparr>Epsilon = 1 / 10, Counts = [3, 1], Rewards = [1, 2], N = 2\<rparr> [7, 7])"
proof -
  let ?b = "\<lparr>Epsilon = 1 / 10, Counts = [3, 1], Rewards = [1, 2 :: real]\<rparr>"
  let ?g = "\<lparr>Epsilon = 1 / 10, Counts = [3, 1], Rewards = [1, 2 :: real], N = 2\<rparr>"
  have n: "NewEpsilonGreedy (1 / 10) [3, 1] [1, 2] = Inr ?b"
    by (simp add: NewEpsilonGreedy_def len_def)
  have gg: "lengths_agree ?g" by (simp add: lengths_agree_def len_def)
  have l: "len [7, 7 :: int64] = len (Rewards ?g)" by (simp add: len_def)
  note t = lengths_agree_invariant [where epsilon = "1 / 10" and counts = "[3, 1]"
      and rewards = "[1, 2]" and ?b0.0 = ?b and b = ?b and nArms = 5 and i = 1 and r = 4
      and g = ?g and cs = "[7, 7]"]
  have ab: "lengths_agree ?b" using t n by blast
  show ?thesis using t n ab gg l by blast
qed

text \<open>
  C6 as stated fails: \<open>SetRewards\<close> with two means on a state of one arm leaves two
  means and one count.
\<close>

theorem set_rewards_breaks_lengths:
  "lengths_agree \<lparr>Epsilon = 1 / 10, Counts = [0], Rewards = [0], N = 1\<rparr> \<and>
   \<not> lengths_agree
       (SetRewards \<lparr>Epsilon = 1 / 10, Counts = [0], Rewards = [0], N = 1\<rparr> [1 / 2, 1 / 2])"
  by (simp add: SetRewards_def lengths_agree_def len_def)

text \<open>
  C7. A successful \<open>Update\<close> on arm \<open>i\<close> leaves \<open>Epsilon\<close> (and \<open>N\<close> in \<^verbatim>\<open>greedy.go\<close>), the
  two lengths, and the count and the mean of every other index as they were. Both
  files.
\<close>

theorem update_frame:
  fixes b :: EpsilonGreedy and g :: EpsilonGreedy_greedy
  shows "(Update b i r = (Return None, b') \<longrightarrow>
            Epsilon b' = Epsilon b \<and>
            length (Counts b') = length (Counts b) \<and>
            length (Rewards b') = length (Rewards b) \<and>
            (\<forall>j. j \<noteq> nat i \<longrightarrow> Counts b' ! j = Counts b ! j \<and> Rewards b' ! j = Rewards b ! j))
       \<and> (Update_greedy g i r = (Return (), g') \<longrightarrow>
            Epsilon g' = Epsilon g \<and> N g' = N g \<and>
            length (Counts g') = length (Counts g) \<and>
            length (Rewards g') = length (Rewards g) \<and>
            (\<forall>j. j \<noteq> nat i \<longrightarrow> Counts g' ! j = Counts g ! j \<and> Rewards g' ! j = Rewards g ! j))"
proof (intro conjI impI)
  assume u: "Update b i r = (Return None, b')"
  have h: "0 \<le> i" "i < len (Rewards b)" "i < len (Counts b)" "0 \<le> r"
    using Update_Return_None [OF u] by simp_all
  have e: "b' = snd (Update b i r)" using u by simp
  show "Epsilon b' = Epsilon b" "length (Counts b') = length (Counts b)"
    "length (Rewards b') = length (Rewards b)"
    "\<forall>j. j \<noteq> nat i \<longrightarrow> Counts b' ! j = Counts b ! j \<and> Rewards b' ! j = Rewards b ! j"
    unfolding e Update_ok [OF h] by simp_all
next
  assume u: "Update_greedy g i r = (Return (), g')"
  have h: "0 \<le> i" "i < len (Rewards g)" "i < len (Counts g)"
    using Update_greedy_Return [OF u] by simp_all
  have e: "g' = snd (Update_greedy g i r)" using u by simp
  show "Epsilon g' = Epsilon g" "N g' = N g" "length (Counts g') = length (Counts g)"
    "length (Rewards g') = length (Rewards g)"
    "\<forall>j. j \<noteq> nat i \<longrightarrow> Counts g' ! j = Counts g ! j \<and> Rewards g' ! j = Rewards g ! j"
    unfolding e Update_greedy_ok [OF h] by simp_all
qed

theorem update_frame_witness:
  "Update \<lparr>Epsilon = 1 / 10, Counts = [3, 1, 4], Rewards = [1, 2, 5]\<rparr> 1 4
     = (Return None, \<lparr>Epsilon = 1 / 10, Counts = [3, 2, 4], Rewards = [1, 3, 5]\<rparr>) \<and>
   Update_greedy \<lparr>Epsilon = 1 / 10, Counts = [3, 1, 4], Rewards = [1, 2, 5], N = 3\<rparr> 1 4
     = (Return (), \<lparr>Epsilon = 1 / 10, Counts = [3, 2, 4], Rewards = [1, 3, 5], N = 3\<rparr>) \<and>
   Counts \<lparr>Epsilon = 1 / 10, Counts = [3, 2, 4], Rewards = [1, 3, 5]\<rparr> ! 2
     = Counts \<lparr>Epsilon = 1 / 10, Counts = [3, 1, 4], Rewards = [1, 2, 5]\<rparr> ! 2 \<and>
   Rewards \<lparr>Epsilon = 1 / 10, Counts = [3, 2, 4], Rewards = [1, 3, 5], N = 3\<rparr> ! 0
     = Rewards \<lparr>Epsilon = 1 / 10, Counts = [3, 1, 4], Rewards = [1, 2, 5], N = 3\<rparr> ! 0"
proof -
  let ?b = "\<lparr>Epsilon = 1 / 10, Counts = [3, 1, 4], Rewards = [1, 2, 5 :: real]\<rparr>"
  let ?b' = "\<lparr>Epsilon = 1 / 10, Counts = [3, 2, 4], Rewards = [1, 3, 5 :: real]\<rparr>"
  let ?g = "\<lparr>Epsilon = 1 / 10, Counts = [3, 1, 4], Rewards = [1, 2, 5 :: real], N = 3\<rparr>"
  let ?g' = "\<lparr>Epsilon = 1 / 10, Counts = [3, 2, 4], Rewards = [1, 3, 5 :: real], N = 3\<rparr>"
  have ub: "Update ?b 1 4 = (Return None, ?b')"
    by (simp add: Update_def Let_def len_def float64_of_def)
  have ug: "Update_greedy ?g 1 4 = (Return (), ?g')"
    by (simp add: Update_greedy_def Let_def len_def float64_of_def)
  note t = update_frame [of ?b 1 4 ?b' ?g ?g']
  have fb: "\<forall>j. j \<noteq> nat 1 \<longrightarrow> Counts ?b' ! j = Counts ?b ! j \<and> Rewards ?b' ! j = Rewards ?b ! j"
    using t ub by blast
  have fg: "\<forall>j. j \<noteq> nat 1 \<longrightarrow> Counts ?g' ! j = Counts ?g ! j \<and> Rewards ?g' ! j = Rewards ?g ! j"
    using t ug by blast
  have "Counts ?b' ! 2 = Counts ?b ! 2" using fb [rule_format, of 2] by simp
  moreover have "Rewards ?g' ! 0 = Rewards ?g ! 0" using fg [rule_format, of 0] by simp
  ultimately show ?thesis using ub ug by blast
qed

text \<open>
  C8. With at least one arm and any draw, \<open>SelectArm\<close> returns: the state it leaves is
  the state it was called on, every index it returns with a probability other than 0
  lies in \<open>[0, N)\<close>, and the probabilities of the indices of \<open>[0, N)\<close> add up to 1. Both
  files.
\<close>

theorem select_arm_valid_index_read_only:
  fixes b :: EpsilonGreedy and g :: EpsilonGreedy_greedy
  shows "(1 \<le> len (Rewards b) \<longrightarrow>
           (\<exists>d. SelectArm b draw = (Return d, b) \<and>
                (\<forall>k. d k \<noteq> 0 \<longrightarrow> 0 \<le> k \<and> k < len (Rewards b)) \<and>
                (\<Sum>k = 0..<len (Rewards b). d k) = 1))
       \<and> (1 \<le> len (Rewards g) \<longrightarrow>
           (\<exists>d. SelectArm_greedy g draw = (Return d, g) \<and>
                (\<forall>k. d k \<noteq> 0 \<longrightarrow> 0 \<le> k \<and> k < len (Rewards g)) \<and>
                (\<Sum>k = 0..<len (Rewards g). d k) = 1))"
proof (intro conjI impI)
  assume a: "1 \<le> len (Rewards b)"
  then have ne: "Rewards b \<noteq> []" by (auto simp: len_def)
  show "\<exists>d. SelectArm b draw = (Return d, b) \<and>
      (\<forall>k. d k \<noteq> 0 \<longrightarrow> 0 \<le> k \<and> k < len (Rewards b)) \<and>
      (\<Sum>k = 0..<len (Rewards b). d k) = 1"
  proof (cases "draw > Epsilon b")
    case True
    then obtain m where m: "SelectArm b draw = (Return (certainly m), b)"
      "first_max (Rewards b) m"
      using SelectArm_exploit ne by blast
    have r: "0 \<le> m" "m < len (Rewards b)" using m(2) by (simp_all add: first_max_def)
    have "\<forall>k. certainly m k \<noteq> 0 \<longrightarrow> 0 \<le> k \<and> k < len (Rewards b)"
      using r by (simp add: certainly_def)
    moreover have "(\<Sum>k = 0..<len (Rewards b). certainly m k) = 1"
      using r by (rule sum_certainly)
    ultimately show ?thesis using m(1) by blast
  next
    case False
    then have s: "SelectArm b draw = (Return (uniform (len (Rewards b))), b)"
      using SelectArm_explore ne by simp
    have "\<forall>k. uniform (len (Rewards b)) k \<noteq> 0 \<longrightarrow> 0 \<le> k \<and> k < len (Rewards b)"
      by (simp add: uniform_def)
    moreover have "(\<Sum>k = 0..<len (Rewards b). uniform (len (Rewards b)) k) = 1"
      using a by (intro sum_uniform) simp
    ultimately show ?thesis using s by blast
  qed
next
  assume a: "1 \<le> len (Rewards g)"
  then have ne: "Rewards g \<noteq> []" by (auto simp: len_def)
  show "\<exists>d. SelectArm_greedy g draw = (Return d, g) \<and>
      (\<forall>k. d k \<noteq> 0 \<longrightarrow> 0 \<le> k \<and> k < len (Rewards g)) \<and>
      (\<Sum>k = 0..<len (Rewards g). d k) = 1"
  proof (cases "draw > Epsilon g")
    case True
    then obtain m where m: "SelectArm_greedy g draw = (Return (certainly m), g)"
      "first_max (Rewards g) m"
      using SelectArm_greedy_exploit ne by blast
    have r: "0 \<le> m" "m < len (Rewards g)" using m(2) by (simp_all add: first_max_def)
    have "\<forall>k. certainly m k \<noteq> 0 \<longrightarrow> 0 \<le> k \<and> k < len (Rewards g)"
      using r by (simp add: certainly_def)
    moreover have "(\<Sum>k = 0..<len (Rewards g). certainly m k) = 1"
      using r by (rule sum_certainly)
    ultimately show ?thesis using m(1) by blast
  next
    case False
    then have s: "SelectArm_greedy g draw = (Return (uniform (len (Rewards g))), g)"
      using SelectArm_greedy_explore ne by simp
    have "\<forall>k. uniform (len (Rewards g)) k \<noteq> 0 \<longrightarrow> 0 \<le> k \<and> k < len (Rewards g)"
      by (simp add: uniform_def)
    moreover have "(\<Sum>k = 0..<len (Rewards g). uniform (len (Rewards g)) k) = 1"
      using a by (intro sum_uniform) simp
    ultimately show ?thesis using s by blast
  qed
qed

theorem select_arm_valid_index_read_only_witness:
  "1 \<le> len (Rewards \<lparr>Epsilon = 1 / 10, Counts = [4, 7], Rewards = [1 / 5, 9 / 10]\<rparr>) \<and>
   (\<exists>d. SelectArm \<lparr>Epsilon = 1 / 10, Counts = [4, 7], Rewards = [1 / 5, 9 / 10]\<rparr> (1 / 20)
          = (Return d, \<lparr>Epsilon = 1 / 10, Counts = [4, 7], Rewards = [1 / 5, 9 / 10]\<rparr>) \<and>
        d 2 = 0 \<and> d (- 1) = 0 \<and> d 0 + d 1 = 1) \<and>
   (\<exists>d. SelectArm_greedy \<lparr>Epsilon = 1 / 10, Counts = [4, 7], Rewards = [1 / 5, 9 / 10], N = 2\<rparr> (1 / 2)
          = (Return d, \<lparr>Epsilon = 1 / 10, Counts = [4, 7], Rewards = [1 / 5, 9 / 10], N = 2\<rparr>) \<and>
        d 2 = 0 \<and> d (- 1) = 0 \<and> d 0 + d 1 = 1)"
proof -
  let ?b = "\<lparr>Epsilon = 1 / 10, Counts = [4, 7], Rewards = [1 / 5, 9 / 10 :: real]\<rparr>"
  let ?g = "\<lparr>Epsilon = 1 / 10, Counts = [4, 7], Rewards = [1 / 5, 9 / 10 :: real], N = 2\<rparr>"
  have n: "1 \<le> len (Rewards ?b)" "1 \<le> len (Rewards ?g)" by (simp_all add: len_def)
  have l: "len (Rewards ?b) = 2" "len (Rewards ?g) = 2" by (simp_all add: len_def)
  have i: "{0..<2 :: int} = {0, 1}" by auto
  have s: "\<And>d :: int \<Rightarrow> real. (\<Sum>k = 0..<2. d k) = d 0 + d 1" by (simp add: i)
  have v: "\<And>d :: int \<Rightarrow> real. (\<forall>k. d k \<noteq> 0 \<longrightarrow> 0 \<le> k \<and> k < 2) \<Longrightarrow> d 2 = 0 \<and> d (- 1) = 0"
    by force
  note t1 = select_arm_valid_index_read_only [of ?b "1 / 20" ?g]
  note t2 = select_arm_valid_index_read_only [of ?b "1 / 2" ?g]
  have c1: "\<exists>d. SelectArm ?b (1 / 20) = (Return d, ?b) \<and> d 2 = 0 \<and> d (- 1) = 0 \<and> d 0 + d 1 = 1"
    using t1 n(1) unfolding l s using v by blast
  have c2: "\<exists>d. SelectArm_greedy ?g (1 / 2) = (Return d, ?g) \<and> d 2 = 0 \<and> d (- 1) = 0 \<and> d 0 + d 1 = 1"
    using t2 n(2) unfolding l s using v by blast
  show ?thesis using n(1) c1 c2 by blast
qed

text \<open>
  C9 fails in \<^verbatim>\<open>greedy.go\<close>, whose \<open>Update\<close> increments the count and reads the mean
  before \<open>b.Lock()\<close>. Two goroutines call \<open>Update(0, 1.0)\<close> on one fresh arm. When both
  read the count before either writes it back, both calls return and the count is 1,
  not 2. When the second reads the mean before the first has stored it, both calls
  return, the count is 2 and the mean is \<open>1/2\<close>, not 1.0. (In \<^verbatim>\<open>epsilon_greedy.go\<close> the
  claim holds: \<open>Update_atomic\<close> and \<open>one_by_one_all_returned\<close> above.)
\<close>

theorem update_greedy_lost_update:
  "run Update_step_greedy [0, 1, 0, 1, 0, 0, 0, 0, 0, 1, 1, 1, 1, 1]
     (calls 2 0 1, (\<lparr>Epsilon = 1 / 10, Counts = [0], Rewards = [0], N = 1\<rparr>, False))
     = ([\<lparr>arg_chosenArm = 0, arg_reward = 1, pc = Returned None\<rparr>,
         \<lparr>arg_chosenArm = 0, arg_reward = 1, pc = Returned None\<rparr>],
        (\<lparr>Epsilon = 1 / 10, Counts = [1], Rewards = [1], N = 1\<rparr>, False)) \<and>
   run Update_step_greedy [0, 0, 1, 1, 0, 0, 1, 1, 0, 0, 0, 1, 1, 1]
     (calls 2 0 1, (\<lparr>Epsilon = 1 / 10, Counts = [0], Rewards = [0], N = 1\<rparr>, False))
     = ([\<lparr>arg_chosenArm = 0, arg_reward = 1, pc = Returned None\<rparr>,
         \<lparr>arg_chosenArm = 0, arg_reward = 1, pc = Returned None\<rparr>],
        (\<lparr>Epsilon = 1 / 10, Counts = [2], Rewards = [1 / 2], N = 1\<rparr>, False))"
  by (simp add: calls_def Update_step_greedy_def Let_def len_def float64_of_def numeral_2_eq_2)

text \<open>
  C10. \<open>NewEpsilonGreedy(epsilon, counts, rewards)\<close> of \<^verbatim>\<open>epsilon_greedy.go\<close> succeeds
  for every epsilon in \<open>[0, 1]\<close> and every two slices of the same length, the empty
  ones included, and the state it returns holds these slices: the number of arms is
  not checked.
\<close>

theorem new_epsilon_greedy_no_arm_count_check:
  "0 \<le> epsilon \<and> epsilon \<le> 1 \<and> length counts = length rewards \<longrightarrow>
     NewEpsilonGreedy epsilon counts rewards
       = Inr \<lparr>Epsilon = epsilon, Counts = counts, Rewards = rewards\<rparr>"
  by (simp add: NewEpsilonGreedy_def len_def)

theorem new_epsilon_greedy_no_arm_count_check_witness:
  "(0 :: real) \<le> 1 / 2 \<and> (1 / 2 :: real) \<le> 1 \<and>
   length ([] :: int64 list) = length ([] :: float64 list) \<and>
   NewEpsilonGreedy (1 / 2) [] [] = Inr \<lparr>Epsilon = 1 / 2, Counts = [], Rewards = []\<rparr> \<and>
   len (Counts \<lparr>Epsilon = 1 / 2, Counts = [], Rewards = []\<rparr>) = 0"
  using new_epsilon_greedy_no_arm_count_check [of "1 / 2" "[]" "[]"]
  by (simp add: len_def)

end
